theory Spec2Isabelle
  imports Complex_Main
begin

section \<open>JavaScript values\<close>

text \<open>
  The importer is written in TypeScript (client) and JavaScript (server). A spreadsheet
  cell reaches the code as an untyped value. The embedding keeps the six kinds of value the
  decoder hands out: absent, null, boolean, number, string and Date object.

  A number is \<open>NaN\<close>, an infinity or a finite value. A finite value is its exact real value:
  the rounding of binary64 arithmetic is not part of the model. A string is a list of
  code units below 256. A Date object is its time value in milliseconds since
  1970-01-01T00:00:00Z, or \<open>None\<close> for an invalid date.
\<close>

datatype jsnum = NaN | NegInf | Fin real | PosInf

datatype jsval =
    JUndefined
  | JNull
  | JBool bool
  | JNum jsnum
  | JStr string
  | JDate "int option"

text \<open>What a \<open>throw\<close> carries; \<open>err_message\<close> is the \<open>message\<close> property.\<close>

datatype js_error = TypeError string | RangeError string | Error string

fun err_message :: "js_error \<Rightarrow> string" where
  "err_message (TypeError m) = m"
| "err_message (RangeError m) = m"
| "err_message (Error m) = m"

text \<open>\<open>ToBoolean\<close>: what \<open>if (v)\<close>, \<open>!v\<close> and \<open>v || d\<close> test.\<close>

fun truthy :: "jsval \<Rightarrow> bool" where
  "truthy JUndefined = False"
| "truthy JNull = False"
| "truthy (JBool b) = b"
| "truthy (JNum n) = (n \<noteq> NaN \<and> n \<noteq> Fin 0)"
| "truthy (JStr s) = (s \<noteq> [])"
| "truthy (JDate t) = True"

text \<open>A string property that may be absent: \<open>p ? a : b\<close> takes \<open>a\<close> for a non-empty string.\<close>

fun truthy_str :: "string option \<Rightarrow> bool" where
  "truthy_str None = False"
| "truthy_str (Some s) = (s \<noteq> [])"

subsection \<open>Strings\<close>

text \<open>
  \<open>String.prototype.trim\<close> strips white space and line terminators from both ends; below
  256 these are TAB, LF, VT, FF, CR, SPACE and NBSP.
\<close>

definition is_space :: "char \<Rightarrow> bool" where
  "is_space c = ((of_char c :: nat) \<in> {9, 10, 11, 12, 13, 32, 160})"

definition trim :: "string \<Rightarrow> string" where
  "trim s = rev (dropWhile is_space (rev (dropWhile is_space s)))"

text \<open>
  \<open>String.prototype.toLowerCase\<close>: the capital letters below 256 are A to Z and
  U+00C0 to U+00DE without the multiplication sign U+00D7; each is 32 below its small
  letter.
\<close>

definition lower_char :: "char \<Rightarrow> char" where
  "lower_char c =
     (let n = (of_char c :: nat) in
      if (65 \<le> n \<and> n \<le> 90) \<or> (192 \<le> n \<and> n \<le> 222 \<and> n \<noteq> 215)
      then char_of (n + 32) else c)"

definition toLowerCase :: "string \<Rightarrow> string" where
  "toLowerCase s = map lower_char s"

text \<open>\<open>Array.prototype.join\<close> on an array of strings.\<close>

fun join :: "string \<Rightarrow> string list \<Rightarrow> string" where
  "join sep [] = []"
| "join sep [x] = x"
| "join sep (x # y # ys) = x @ sep @ join sep (y # ys)"

text \<open>
  A regular expression that is one lower-case ASCII word under the flag \<open>i\<close>: a code unit
  matches a pattern letter when it is that letter or its ASCII capital (no code unit
  from 128 on is canonicalised to an ASCII letter). \<open>regex_test_ci p s\<close> is
  \<open>/p/i.test(s)\<close>: the word occurs somewhere in \<open>s\<close>.
\<close>

definition ci_match :: "char \<Rightarrow> char \<Rightarrow> bool" where
  "ci_match p c = (c = p \<or> (of_char c :: nat) + 32 = of_char p \<and> 65 \<le> (of_char c :: nat) \<and> (of_char c :: nat) \<le> 90)"

fun is_prefix_ci :: "string \<Rightarrow> string \<Rightarrow> bool" where
  "is_prefix_ci [] s = True"
| "is_prefix_ci (p # ps) [] = False"
| "is_prefix_ci (p # ps) (c # cs) = (ci_match p c \<and> is_prefix_ci ps cs)"

fun regex_test_ci :: "string \<Rightarrow> string \<Rightarrow> bool" where
  "regex_test_ci p [] = is_prefix_ci p []"
| "regex_test_ci p (c # cs) = (is_prefix_ci p (c # cs) \<or> regex_test_ci p cs)"

text \<open>Decimal digits: \<open>dec_digits w n\<close> are the last \<open>w\<close> digits of \<open>n\<close>, zero padded;
  \<open>show_nat n\<close> is the template literal \<open>`${n}`\<close> of a non-negative integer.\<close>

definition digit_char :: "nat \<Rightarrow> char" where
  "digit_char k = ''0123456789'' ! (k mod 10)"

fun dec_digits :: "nat \<Rightarrow> nat \<Rightarrow> string" where
  "dec_digits 0 n = []"
| "dec_digits (Suc w) n = dec_digits w (n div 10) @ [digit_char n]"

fun show_nat :: "nat \<Rightarrow> string" where
  "show_nat n = (if n < 10 then [digit_char n] else show_nat (n div 10) @ [digit_char n])"

subsection \<open>Numbers\<close>

text \<open>
  The arithmetic and the comparisons of the number type on the special values: an
  operation with \<open>NaN\<close> is \<open>NaN\<close>, a comparison with \<open>NaN\<close> is false.
\<close>

text \<open>
  A finite Number is a binary64 value, and the result of \<open>+\<close>, \<open>-\<close> and \<open>*\<close> is the exact
  result rounded to binary64: to the nearest multiple of \<open>pow2 q\<close>, where \<open>q\<close> leaves the
  significand 53 bits and is not below -1074; to the multiple with an even significand
  when two are equally near; and to an infinity when the rounded magnitude reaches two
  to the power 1024, which is when its exponent does. For a positive \<open>x\<close>, \<open>exponent2 x\<close>
  is the exponent of the power of two at or below \<open>x\<close>, as far as the format needs it
  (from -1075 to 1024); \<open>pow2 q\<close> is two to the power \<open>q\<close>. The sign of a zero is not
  kept.
\<close>

definition round_half_even :: "real \<Rightarrow> int" where
  "round_half_even x =
     (let f = \<lfloor>x\<rfloor>; d = x - of_int f
      in if d < 1 / 2 then f else if 1 / 2 < d then f + 1 else if even f then f else f + 1)"

fun halvings :: "nat \<Rightarrow> real \<Rightarrow> nat" where
  "halvings 0 x = 0"
| "halvings (Suc k) x = (if 2 \<le> x then Suc (halvings k (x / 2)) else 0)"

fun doublings :: "nat \<Rightarrow> real \<Rightarrow> nat" where
  "doublings 0 x = 0"
| "doublings (Suc k) x = (if x < 1 then Suc (doublings k (2 * x)) else 0)"

definition exponent2 :: "real \<Rightarrow> int" where
  "exponent2 x = (if 1 \<le> x then int (halvings 1024 x) else - int (doublings 1075 x))"

definition pow2 :: "int \<Rightarrow> real" where
  "pow2 q = (if 0 \<le> q then 2 ^ nat q else 1 / 2 ^ nat (- q))"

definition binary64 :: "real \<Rightarrow> jsnum" where
  "binary64 x =
     (if x = 0 then Fin 0
      else
        let q = max (exponent2 \<bar>x\<bar> - 52) (- 1074);
            y = of_int (round_half_even (x / pow2 q)) * pow2 q
        in if 1024 \<le> exponent2 \<bar>y\<bar> then (if 0 < x then PosInf else NegInf) else Fin y)"

fun num_neg :: "jsnum \<Rightarrow> jsnum" where
  "num_neg NaN = NaN"
| "num_neg NegInf = PosInf"
| "num_neg PosInf = NegInf"
| "num_neg (Fin x) = Fin (- x)"

fun num_add :: "jsnum \<Rightarrow> jsnum \<Rightarrow> jsnum" where
  "num_add (Fin a) (Fin b) = binary64 (a + b)"
| "num_add NaN b = NaN"
| "num_add a NaN = NaN"
| "num_add PosInf NegInf = NaN"
| "num_add NegInf PosInf = NaN"
| "num_add PosInf b = PosInf"
| "num_add a PosInf = PosInf"
| "num_add NegInf b = NegInf"
| "num_add a NegInf = NegInf"

definition num_sub :: "jsnum \<Rightarrow> jsnum \<Rightarrow> jsnum" where
  "num_sub a b = num_add a (num_neg b)"

fun num_sign :: "jsnum \<Rightarrow> int" where
  "num_sign NaN = 0"
| "num_sign NegInf = - 1"
| "num_sign PosInf = 1"
| "num_sign (Fin x) = (if x < 0 then - 1 else if x = 0 then 0 else 1)"

fun num_mul :: "jsnum \<Rightarrow> jsnum \<Rightarrow> jsnum" where
  "num_mul (Fin a) (Fin b) = binary64 (a * b)"
| "num_mul NaN b = NaN"
| "num_mul a NaN = NaN"
| "num_mul a b =
     (if num_sign a * num_sign b = 0 then NaN
      else if num_sign a * num_sign b > 0 then PosInf else NegInf)"

fun num_lt :: "jsnum \<Rightarrow> jsnum \<Rightarrow> bool" where
  "num_lt (Fin a) (Fin b) = (a < b)"
| "num_lt NaN b = False"
| "num_lt a NaN = False"
| "num_lt a NegInf = False"
| "num_lt PosInf b = False"
| "num_lt NegInf b = True"
| "num_lt a PosInf = True"

definition num_le :: "jsnum \<Rightarrow> jsnum \<Rightarrow> bool" where
  "num_le a b = (a \<noteq> NaN \<and> b \<noteq> NaN \<and> \<not> num_lt b a)"

text \<open>\<open>Math.round\<close> rounds half up; its result is a binary64 value when its argument
  is.\<close>

fun Math_round :: "jsnum \<Rightarrow> jsnum" where
  "Math_round (Fin x) = Fin (of_int \<lfloor>x + 1 / 2\<rfloor>)"
| "Math_round n = n"

subsection \<open>Dates\<close>

text \<open>
  The day and calendar arithmetic of the language standard, on integers: \<open>Day\<close>,
  \<open>TimeWithinDay\<close>, \<open>DaysInYear\<close>, \<open>DayFromYear\<close>, \<open>YearFromTime\<close> (the largest year
  that starts at or before the day, reached from an estimate that is off by one at
  most), \<open>MonthFromTime\<close> (0 to 11), \<open>DateFromTime\<close>, \<open>MakeDay\<close>, \<open>MakeDate\<close> and
  \<open>TimeClip\<close>.
\<close>

definition msPerDay :: int where
  "msPerDay = 86400000"

definition Day :: "int \<Rightarrow> int" where
  "Day t = t div msPerDay"

definition TimeWithinDay :: "int \<Rightarrow> int" where
  "TimeWithinDay t = t mod msPerDay"

definition DaysInYear :: "int \<Rightarrow> int" where
  "DaysInYear y =
     (if y mod 4 \<noteq> 0 then 365 else if y mod 100 \<noteq> 0 then 366
      else if y mod 400 \<noteq> 0 then 365 else 366)"

definition DayFromYear :: "int \<Rightarrow> int" where
  "DayFromYear y =
     365 * (y - 1970) + (y - 1969) div 4 - (y - 1901) div 100 + (y - 1601) div 400"

definition YearFromDay :: "int \<Rightarrow> int" where
  "YearFromDay d =
     (let y = 1970 + (400 * d) div 146097
      in if d < DayFromYear y then y - 1
         else if DayFromYear (y + 1) \<le> d then y + 1 else y)"

definition InLeapYear :: "int \<Rightarrow> int" where
  "InLeapYear d = (if DaysInYear (YearFromDay d) = 366 then 1 else 0)"

definition DayWithinYear :: "int \<Rightarrow> int" where
  "DayWithinYear d = d - DayFromYear (YearFromDay d)"

text \<open>\<open>MonthStart m l\<close>: the day within the year on which month \<open>m\<close> starts, for the
  leap flag \<open>l\<close>.\<close>

definition MonthStart :: "int \<Rightarrow> int \<Rightarrow> int" where
  "MonthStart m l =
     (if m = 0 then 0 else if m = 1 then 31 else if m = 2 then 59 + l
      else if m = 3 then 90 + l else if m = 4 then 120 + l else if m = 5 then 151 + l
      else if m = 6 then 181 + l else if m = 7 then 212 + l else if m = 8 then 243 + l
      else if m = 9 then 273 + l else if m = 10 then 304 + l else 334 + l)"

definition MonthFromDay :: "int \<Rightarrow> int" where
  "MonthFromDay d =
     (let n = DayWithinYear d; l = InLeapYear d
      in if n < 31 then 0 else if n < 59 + l then 1 else if n < 90 + l then 2
         else if n < 120 + l then 3 else if n < 151 + l then 4 else if n < 181 + l then 5
         else if n < 212 + l then 6 else if n < 243 + l then 7 else if n < 273 + l then 8
         else if n < 304 + l then 9 else if n < 334 + l then 10 else 11)"

definition DateFromDay :: "int \<Rightarrow> int" where
  "DateFromDay d = DayWithinYear d - MonthStart (MonthFromDay d) (InLeapYear d) + 1"

definition YearFromTime :: "int \<Rightarrow> int" where
  "YearFromTime t = YearFromDay (Day t)"

definition MonthFromTime :: "int \<Rightarrow> int" where
  "MonthFromTime t = MonthFromDay (Day t)"

definition DateFromTime :: "int \<Rightarrow> int" where
  "DateFromTime t = DateFromDay (Day t)"

definition MakeDay :: "int \<Rightarrow> int \<Rightarrow> int \<Rightarrow> int" where
  "MakeDay year month date =
     (let ym = year + month div 12; mn = month mod 12
      in DayFromYear ym + MonthStart mn (if DaysInYear ym = 366 then 1 else 0) + date - 1)"

definition MakeDate :: "int \<Rightarrow> int \<Rightarrow> int" where
  "MakeDate day time = day * msPerDay + time"

definition TimeClip :: "jsnum \<Rightarrow> int option" where
  "TimeClip n =
     (case n of
        Fin x \<Rightarrow>
          if \<bar>x\<bar> \<le> 8640000000000000
          then Some (if 0 \<le> x then \<lfloor>x\<rfloor> else \<lceil>x\<rceil>) else None
      | _ \<Rightarrow> None)"

text \<open>
  \<open>Date.prototype.toISOString\<close>: a four-digit year from 0 to 9999, a sign and six digits
  otherwise; it throws on an invalid date. \<open>before_first sep s\<close> is \<open>s.split(sep)[0]\<close>.
\<close>

definition iso_year :: "int \<Rightarrow> string" where
  "iso_year y =
     (if 0 \<le> y \<and> y \<le> 9999 then dec_digits 4 (nat y)
      else (if y < 0 then ''-'' else ''+'') @ dec_digits 6 (nat \<bar>y\<bar>))"

definition iso_date :: "int \<Rightarrow> string" where
  "iso_date d =
     iso_year (YearFromDay d) @ ''-'' @ dec_digits 2 (nat (MonthFromDay d + 1)) @ ''-'' @
     dec_digits 2 (nat (DateFromDay d))"

definition iso_time :: "int \<Rightarrow> string" where
  "iso_time ms =
     dec_digits 2 (nat (ms div 3600000)) @ '':'' @ dec_digits 2 (nat (ms div 60000 mod 60)) @
     '':'' @ dec_digits 2 (nat (ms div 1000 mod 60)) @ ''.'' @ dec_digits 3 (nat (ms mod 1000))"

definition toISOString :: "int option \<Rightarrow> js_error + string" where
  "toISOString tv =
     (case tv of
        None \<Rightarrow> Inl (RangeError ''Invalid time value'')
      | Some t \<Rightarrow> Inr (iso_date (Day t) @ ''T'' @ iso_time (TimeWithinDay t) @ ''Z''))"

definition before_first :: "char \<Rightarrow> string \<Rightarrow> string" where
  "before_first sep s = takeWhile (\<lambda>c. c \<noteq> sep) s"

text \<open>
  What the engine adds to the language. The standard fixes how \<open>new Date(s)\<close> reads the
  date-only form \<open>YYYY-MM-DD\<close> (and its expanded-year form) of an existing calendar day:
  midnight UTC of that day. Every other string is read by \<open>DateParseOther\<close>. Further
  parameters: \<open>StringToNumber\<close> (what \<open>Number(s)\<close> reads), \<open>ToString\<close> (what
  \<open>String(v)\<close> and template literals print) and \<open>LocalTZA\<close>, the offset of local time.
\<close>

record runtime =
  StringToNumber :: "string \<Rightarrow> jsnum"
  DateParseOther :: "string \<Rightarrow> int option"
  ToString :: "jsval \<Rightarrow> string"
  LocalTZA :: "int \<Rightarrow> bool \<Rightarrow> int"

definition digit_val :: "char \<Rightarrow> nat option" where
  "digit_val c =
     (let n = (of_char c :: nat) in if 48 \<le> n \<and> n \<le> 57 then Some (n - 48) else None)"

fun digits_val :: "nat \<Rightarrow> string \<Rightarrow> nat option" where
  "digits_val n [] = Some n"
| "digits_val n (c # cs) =
     (case digit_val c of None \<Rightarrow> None | Some k \<Rightarrow> digits_val (10 * n + k) cs)"

definition parse_month_day :: "string \<Rightarrow> (nat \<times> nat) option" where
  "parse_month_day s =
     (if length s = 6 \<and> s ! 0 = CHR ''-'' \<and> s ! 3 = CHR ''-''
      then (case (digits_val 0 (take 2 (drop 1 s)), digits_val 0 (drop 4 s)) of
              (Some m, Some d) \<Rightarrow> Some (m, d)
            | _ \<Rightarrow> None)
      else None)"

definition parse_iso_date :: "string \<Rightarrow> (int \<times> nat \<times> nat) option" where
  "parse_iso_date s =
     (if length s = 10
      then (case (digits_val 0 (take 4 s), parse_month_day (drop 4 s)) of
              (Some y, Some (m, d)) \<Rightarrow> Some (int y, m, d)
            | _ \<Rightarrow> None)
      else if length s = 13 \<and> (s ! 0 = CHR ''+'' \<or> s ! 0 = CHR ''-'')
      then (case (digits_val 0 (take 6 (drop 1 s)), parse_month_day (drop 7 s)) of
              (Some y, Some (m, d)) \<Rightarrow>
                if s ! 0 = CHR ''-'' then (if y = 0 then None else Some (- int y, m, d))
                else Some (int y, m, d)
            | _ \<Rightarrow> None)
      else None)"

definition DaysInMonth :: "int \<Rightarrow> nat \<Rightarrow> nat" where
  "DaysInMonth y m =
     (if m = 2 then (if DaysInYear y = 366 then 29 else 28)
      else if m = 4 \<or> m = 6 \<or> m = 9 \<or> m = 11 then 30 else 31)"

definition valid_date :: "int \<Rightarrow> nat \<Rightarrow> nat \<Rightarrow> bool" where
  "valid_date y m d = (1 \<le> m \<and> m \<le> 12 \<and> 1 \<le> d \<and> d \<le> DaysInMonth y m)"

definition Date_parse :: "runtime \<Rightarrow> string \<Rightarrow> int option" where
  "Date_parse rt s =
     (case parse_iso_date s of
        Some (y, m, d) \<Rightarrow>
          if valid_date y m d
          then TimeClip (Fin (of_int (MakeDate (MakeDay y (int m - 1) (int d)) 0)))
          else DateParseOther rt s
      | None \<Rightarrow> DateParseOther rt s)"

text \<open>\<open>ToNumber\<close> (what \<open>Number(v)\<close> returns) and \<open>new Date(v)\<close> with one argument:
  the time value of a Date object, the parsed string or the number, clipped to the range
  of time values.\<close>

fun ToNumber :: "runtime \<Rightarrow> jsval \<Rightarrow> jsnum" where
  "ToNumber rt JUndefined = NaN"
| "ToNumber rt JNull = Fin 0"
| "ToNumber rt (JBool b) = Fin (if b then 1 else 0)"
| "ToNumber rt (JNum n) = n"
| "ToNumber rt (JStr s) = StringToNumber rt s"
| "ToNumber rt (JDate None) = NaN"
| "ToNumber rt (JDate (Some t)) = Fin (of_int t)"

fun new_Date :: "runtime \<Rightarrow> jsval \<Rightarrow> int option" where
  "new_Date rt (JDate tv) = tv"
| "new_Date rt (JStr s) =
     (case Date_parse rt s of None \<Rightarrow> None | Some t \<Rightarrow> TimeClip (Fin (of_int t)))"
| "new_Date rt v = TimeClip (ToNumber rt v)"

text \<open>Local time, \<open>getMonth\<close> and \<open>setMonth\<close> of a valid date.\<close>

definition LocalTime :: "runtime \<Rightarrow> int \<Rightarrow> int" where
  "LocalTime rt t = t + LocalTZA rt t True"

definition UTC :: "runtime \<Rightarrow> int \<Rightarrow> int" where
  "UTC rt t = t - LocalTZA rt t False"

definition getMonth :: "runtime \<Rightarrow> int \<Rightarrow> int" where
  "getMonth rt t = MonthFromTime (LocalTime rt t)"

definition setMonth :: "runtime \<Rightarrow> int \<Rightarrow> int \<Rightarrow> int option" where
  "setMonth rt t m =
     (let lt = LocalTime rt t;
          newDate = MakeDate (MakeDay (YearFromTime lt) m (DateFromTime lt)) (TimeWithinDay lt)
      in TimeClip (Fin (of_int (UTC rt newDate))))"

text \<open>A comparison of two Date objects compares their time values; an invalid date
  compares false.\<close>

fun tv_le :: "int option \<Rightarrow> int option \<Rightarrow> bool" where
  "tv_le (Some a) (Some b) = (a \<le> b)"
| "tv_le a b = False"

fun tv_lt :: "int option \<Rightarrow> int option \<Rightarrow> bool" where
  "tv_lt (Some a) (Some b) = (a < b)"
| "tv_lt a b = False"

section \<open>Findings and rows\<close>

text \<open>
  \<open>ValidationError\<close> of \<open>utils/errorHandling.ts\<close>: \<open>column\<close>, \<open>sheetName\<close> and
  \<open>severity\<close> are optional properties.
\<close>

datatype severity = SevError | SevWarning | SevInfo

record finding =
  row :: nat
  column :: "string option"
  message :: string
  sheetName :: "string option"
  severity :: "severity option"

text \<open>
  A row is an object whose keys are the column headers: an association list in the
  object's key order, each key once. \<open>get_prop r k\<close> is \<open>r[k]\<close>, \<open>has_key r k\<close> is
  \<open>k in r\<close> and \<open>object_keys\<close> is \<open>Object.keys\<close>. The argument \<open>data\<close> of both
  validators is an array of rows or anything else.
\<close>

type_synonym excel_row = "(string \<times> jsval) list"

datatype sheet_data = NotArray | Rows "excel_row list"

definition get_prop :: "excel_row \<Rightarrow> string \<Rightarrow> jsval" where
  "get_prop r k = (case map_of r k of None \<Rightarrow> JUndefined | Some v \<Rightarrow> v)"

definition has_key :: "excel_row \<Rightarrow> string \<Rightarrow> bool" where
  "has_key r k = (k \<in> set (map fst r))"

definition object_keys :: "excel_row \<Rightarrow> string list" where
  "object_keys r = map fst r"

definition requiredColumns :: "string list" where
  "requiredColumns = [''Name'', ''Amount'', ''Date'', ''Verified'']"

text \<open>The object literals the validators push: with and without a column.\<close>

definition sheet_finding :: "nat \<Rightarrow> string \<Rightarrow> severity \<Rightarrow> finding" where
  "sheet_finding r m s =
     \<lparr>row = r, column = None, message = m, sheetName = None, severity = Some s\<rparr>"

definition cell_finding :: "nat \<Rightarrow> string \<Rightarrow> string \<Rightarrow> severity \<Rightarrow> finding" where
  "cell_finding r c m s =
     \<lparr>row = r, column = Some c, message = m, sheetName = None, severity = Some s\<rparr>"

section \<open>The normalizer\<close>

text \<open>
  The body of \<open>Object.entries(row).forEach\<close> in \<open>handleFileSelect\<close> of \<open>App.tsx\<close>, for
  one entry: the value \<open>processedRow[key]\<close> ends with, or the exception thrown. A key
  that is neither \<open>Verified\<close> nor matches \<open>/date|dt|time/i\<close> keeps the value copied by
  \<open>{ ...row }\<close>, and so does a date cell that is truthy but neither number nor string.
\<close>

definition is_date_key :: "string \<Rightarrow> bool" where
  "is_date_key key =
     (regex_test_ci ''date'' key \<or> regex_test_ci ''dt'' key \<or> regex_test_ci ''time'' key)"

definition iso_day_string :: "int option \<Rightarrow> js_error + jsval" where
  "iso_day_string date =
     (case toISOString date of
        Inl e \<Rightarrow> Inl e
      | Inr s \<Rightarrow> Inr (JStr (before_first CHR ''T'' s)))"

text \<open>\<open>serial_instant value\<close> is the time value of
  \<open>new Date(Math.round((value - 25569) * 86400 * 1000))\<close>.\<close>

definition serial_instant :: "jsnum \<Rightarrow> int option" where
  "serial_instant n =
     TimeClip (Math_round (num_mul (num_mul (num_sub n (Fin 25569)) (Fin 86400)) (Fin 1000)))"

definition processCell :: "runtime \<Rightarrow> string \<Rightarrow> jsval \<Rightarrow> js_error + jsval" where
  "processCell rt key v =
     (if key = ''Verified'' then
        (case v of
           JStr s \<Rightarrow> Inr (JBool (trim (toLowerCase s) = ''yes''))
         | JBool b \<Rightarrow> Inr (JBool b)
         | _ \<Rightarrow> Inr JNull)
      else if is_date_key key then
        (if truthy v then
           (case v of
              JNum n \<Rightarrow> iso_day_string (serial_instant n)
            | JStr s \<Rightarrow>
                (case new_Date rt (JStr s) of
                   Some t \<Rightarrow> iso_day_string (Some t)
                 | None \<Rightarrow> Inr JNull)
            | _ \<Rightarrow> Inr v)
         else Inr JNull)
      else Inr v)"

fun processRow :: "runtime \<Rightarrow> excel_row \<Rightarrow> js_error + excel_row" where
  "processRow rt [] = Inr []"
| "processRow rt ((key, v) # entries) =
     (case processCell rt key v of
        Inl e \<Rightarrow> Inl e
      | Inr v' \<Rightarrow>
          (case processRow rt entries of
             Inl e \<Rightarrow> Inl e
           | Inr entries' \<Rightarrow> Inr ((key, v') # entries')))"

section \<open>The row validator of the client\<close>

text \<open>
  \<open>validateExcelData\<close> of \<open>utils/errorHandling.ts\<close> fills two arrays, \<open>errors\<close> and
  \<open>warnings\<close>, and returns \<open>[...errors, ...warnings]\<close>. The body of its \<open>forEach\<close> is
  four blocks, one per column. The block for the date reads the clock (\<open>new Date()\<close>):
  \<open>clock index\<close> is the reading taken while the row at \<open>index\<close> is checked.
\<close>

type_synonym findings_acc = "finding list \<times> finding list"

definition push_error :: "finding \<Rightarrow> findings_acc \<Rightarrow> findings_acc" where
  "push_error f acc = (fst acc @ [f], snd acc)"

definition push_warning :: "finding \<Rightarrow> findings_acc \<Rightarrow> findings_acc" where
  "push_warning f acc = (fst acc, snd acc @ [f])"

definition validate_Name :: "nat \<Rightarrow> excel_row \<Rightarrow> findings_acc \<Rightarrow> findings_acc" where
  "validate_Name rowNum r acc =
     (let v = get_prop r ''Name'' in
      if \<not> truthy v
      then push_error (cell_finding rowNum ''Name'' ''Name is required'' SevError) acc
      else
        (case v of
           JStr s \<Rightarrow>
             if length (trim s) = 0
             then push_error (cell_finding rowNum ''Name'' ''Name cannot be empty'' SevError) acc
             else if length s > 100
             then push_warning
                    (cell_finding rowNum ''Name'' ''Name is unusually long (>100 characters)''
                       SevWarning) acc
             else acc
         | _ \<Rightarrow> push_error (cell_finding rowNum ''Name'' ''Name must be text'' SevError) acc))"

definition validate_Amount ::
  "runtime \<Rightarrow> nat \<Rightarrow> excel_row \<Rightarrow> findings_acc \<Rightarrow> findings_acc" where
  "validate_Amount rt rowNum r acc =
     (let v = get_prop r ''Amount'' in
      if v = JUndefined \<or> v = JNull
      then push_error (cell_finding rowNum ''Amount'' ''Amount is required'' SevError) acc
      else
        let amount = ToNumber rt v in
        if amount = NaN
        then push_error (cell_finding rowNum ''Amount'' ''Amount must be a number'' SevError) acc
        else if num_le amount (Fin 0)
        then push_error (cell_finding rowNum ''Amount'' ''Amount must be positive'' SevError) acc
        else if num_lt (Fin 1000000) amount
        then push_warning
               (cell_finding rowNum ''Amount'' ''Amount is unusually large (>1,000,000)''
                  SevWarning) acc
        else acc)"

definition validate_Date ::
  "runtime \<Rightarrow> int \<Rightarrow> nat \<Rightarrow> excel_row \<Rightarrow> findings_acc \<Rightarrow> findings_acc" where
  "validate_Date rt now rowNum r acc =
     (let v = get_prop r ''Date'' in
      if \<not> truthy v
      then push_error (cell_finding rowNum ''Date'' ''Date is required'' SevError) acc
      else
        let date = new_Date rt v in
        if date = None
        then push_error (cell_finding rowNum ''Date'' ''Invalid date format'' SevError) acc
        else if tv_lt (Some now) date
        then push_warning (cell_finding rowNum ''Date'' ''Date is in the future'' SevWarning) acc
        else acc)"

definition validate_Verified :: "nat \<Rightarrow> excel_row \<Rightarrow> findings_acc \<Rightarrow> findings_acc" where
  "validate_Verified rowNum r acc =
     (let v = get_prop r ''Verified'' in
      if v = JUndefined \<or> v = JNull
      then push_error (cell_finding rowNum ''Verified'' ''Verified status is required'' SevError) acc
      else
        (case v of
           JStr s \<Rightarrow>
             let token = trim (toLowerCase s) in
             if token \<noteq> ''yes'' \<and> token \<noteq> ''no'' \<and> token \<noteq> ''true'' \<and> token \<noteq> ''false''
             then push_error
                    (cell_finding rowNum ''Verified'' ''Verified must be Yes/No or True/False''
                       SevError) acc
             else acc
         | JBool b \<Rightarrow> acc
         | _ \<Rightarrow>
             push_error
               (cell_finding rowNum ''Verified'' ''Verified must be a boolean value'' SevError)
               acc))"

definition validate_row ::
  "runtime \<Rightarrow> int \<Rightarrow> nat \<Rightarrow> excel_row \<Rightarrow> findings_acc \<Rightarrow> findings_acc" where
  "validate_row rt now index r acc =
     (let rowNum = index + 1 in
      validate_Verified rowNum r
        (validate_Date rt now rowNum r
           (validate_Amount rt rowNum r
              (validate_Name rowNum r acc))))"

fun forEach_rows ::
  "runtime \<Rightarrow> (nat \<Rightarrow> int) \<Rightarrow> nat \<Rightarrow> excel_row list \<Rightarrow> findings_acc \<Rightarrow> findings_acc" where
  "forEach_rows rt clock index [] acc = acc"
| "forEach_rows rt clock index (r # rs) acc =
     forEach_rows rt clock (index + 1) rs (validate_row rt (clock index) index r acc)"

definition validateExcelData :: "runtime \<Rightarrow> (nat \<Rightarrow> int) \<Rightarrow> sheet_data \<Rightarrow> finding list" where
  "validateExcelData rt clock sheet =
     (case sheet of
        NotArray \<Rightarrow> [sheet_finding 0 ''Invalid data format: Expected an array of rows'' SevError]
      | Rows [] \<Rightarrow> [sheet_finding 0 ''File is empty'' SevError]
      | Rows (firstRow # rest) \<Rightarrow>
          let missingColumns = filter (\<lambda>col. \<not> has_key firstRow col) requiredColumns
          in if length missingColumns > 0
             then [sheet_finding 1
                     (''Missing required columns: '' @ join '', '' missingColumns) SevError]
             else
               let acc = forEach_rows rt clock 0 (firstRow # rest) ([], [])
               in fst acc @ snd acc)"

section \<open>The validator of the server\<close>

text \<open>
  \<open>config/excel.config.js\<close>: a column mapping and one validation object per field. The
  properties \<open>type\<close> and \<open>min\<close> are the fields \<open>vtype\<close> and \<open>vmin\<close>. The \<open>transform\<close> of
  the default configuration is \<open>(value) => value.toLowerCase() === 'yes'\<close>, which throws
  a \<open>TypeError\<close> for a value without that method (the message is the engine's).
\<close>

record validation =
  required :: bool
  vtype :: string
  vmin :: "jsnum option"
  validator :: "string option"
  transform :: "(jsval \<Rightarrow> js_error + jsval) option"

record sheet_config =
  columnMapping :: "(string \<times> string) list"
  validations :: "(string \<times> validation) list"

definition default_transform :: "jsval \<Rightarrow> js_error + jsval" where
  "default_transform v =
     (case v of
        JStr s \<Rightarrow> Inr (JBool (toLowerCase s = ''yes''))
      | JUndefined \<Rightarrow> Inl (TypeError ''Cannot read properties of undefined (reading toLowerCase)'')
      | JNull \<Rightarrow> Inl (TypeError ''Cannot read properties of null (reading toLowerCase)'')
      | _ \<Rightarrow> Inl (TypeError ''value.toLowerCase is not a function''))"

definition default_config :: sheet_config where
  "default_config =
     \<lparr>columnMapping =
        [(''Name'', ''name''), (''Amount'', ''amount''), (''Date'', ''date''),
         (''Verified'', ''verified'')],
      validations =
        [(''name'', \<lparr>required = True, vtype = ''string'', vmin = None, validator = None,
                     transform = None\<rparr>),
         (''amount'', \<lparr>required = True, vtype = ''number'', vmin = Some (Fin 0),
                       validator = None, transform = None\<rparr>),
         (''date'', \<lparr>required = True, vtype = ''date'', vmin = None,
                     validator = Some ''isCurrentMonth'', transform = None\<rparr>),
         (''verified'', \<lparr>required = False, vtype = ''boolean'', vmin = None, validator = None,
                         transform = Some default_transform\<rparr>)]\<rparr>"

text \<open>
  \<open>isCurrentMonth\<close> of \<open>utils/validators.js\<close> reads the clock twice: \<open>now\<close> and the
  date that \<open>setMonth\<close> then moves twelve months back.
\<close>

definition isCurrentMonth :: "runtime \<Rightarrow> int \<times> int \<Rightarrow> int option \<Rightarrow> bool" where
  "isCurrentMonth rt reads date =
     (let now = fst reads;
          inputDate = date;
          twelveMonthsAgo = setMonth rt (snd reads) (getMonth rt now - 12)
      in tv_le twelveMonthsAgo inputDate \<and> tv_le inputDate (Some now))"

text \<open>\<open>validateField\<close> of \<open>services/excel.service.js\<close>: the transformed value, or the
  error thrown.\<close>

definition validateField ::
  "runtime \<Rightarrow> int \<times> int \<Rightarrow> jsval \<Rightarrow> validation \<Rightarrow> string \<Rightarrow> js_error + jsval" where
  "validateField rt reads v validation fieldName =
     (if \<not> truthy v \<and> \<not> required validation then Inr JNull
      else if vtype validation = ''number'' then
        (let num = ToNumber rt v in
         if num = NaN then Inl (Error (fieldName @ '' must be a number''))
         else
           (case vmin validation of
              Some m \<Rightarrow>
                if num_lt num m
                then Inl (Error (fieldName @ '' must be greater than '' @ ToString rt (JNum m)))
                else Inr (JNum num)
            | None \<Rightarrow> Inr (JNum num)))
      else if vtype validation = ''date'' then
        (let date = new_Date rt v in
         if date = None then Inl (Error (fieldName @ '' must be a valid date''))
         else if validator validation = Some ''isCurrentMonth'' \<and> \<not> isCurrentMonth rt reads date
         then Inl (Error (fieldName @ '' must be in the current month''))
         else Inr (JDate date))
      else if vtype validation = ''boolean'' then
        (case transform validation of
           Some f \<Rightarrow> f v
         | None \<Rightarrow> Inr (JBool (truthy v)))
      else Inr (JStr (ToString rt v)))"

text \<open>
  The error objects of the server are \<open>{ sheet, row, message }\<close>: the fields \<open>sheet\<close>,
  \<open>at_row\<close> and \<open>msg\<close>. \<open>validateRow\<close> loops over the column mapping with the state
  \<open>(errors, transformedData, isValid)\<close>; an exception of \<open>validateField\<close> is caught and
  recorded, a field without a validation object makes \<open>validation.required\<close> throw.
\<close>

record server_error =
  sheet :: string
  at_row :: nat
  msg :: string

type_synonym row_state = "server_error list \<times> (string \<Rightarrow> jsval option) \<times> bool"

record row_result =
  isValid :: bool
  row_data :: "(string \<Rightarrow> jsval option) option"
  row_errors :: "server_error list"

fun validateRow_loop ::
  "runtime \<Rightarrow> int \<times> int \<Rightarrow> excel_row \<Rightarrow> sheet_config \<Rightarrow> nat \<Rightarrow> string \<Rightarrow>
   (string \<times> string) list \<Rightarrow> row_state \<Rightarrow> js_error + row_state" where
  "validateRow_loop rt reads r config rowNumber sheet_name [] st = Inr st"
| "validateRow_loop rt reads r config rowNumber sheet_name ((excelColumn, dbField) # rest) st =
     (case st of (errors, transformedData, valid) \<Rightarrow>
        let v = get_prop r excelColumn in
        (case map_of (validations config) dbField of
           None \<Rightarrow> Inl (TypeError ''Cannot read properties of undefined (reading required)'')
         | Some validation \<Rightarrow>
             if required validation \<and> \<not> truthy v
             then validateRow_loop rt reads r config rowNumber sheet_name rest
                    (errors @ [\<lparr>sheet = sheet_name, at_row = rowNumber,
                                 msg = excelColumn @ '' is required''\<rparr>],
                     transformedData, False)
             else
               (case validateField rt reads v validation excelColumn of
                  Inr v' \<Rightarrow>
                    validateRow_loop rt reads r config rowNumber sheet_name rest
                      (errors, transformedData(dbField \<mapsto> v'), valid)
                | Inl e \<Rightarrow>
                    validateRow_loop rt reads r config rowNumber sheet_name rest
                      (errors @ [\<lparr>sheet = sheet_name, at_row = rowNumber, msg = err_message e\<rparr>],
                       transformedData, False))))"

definition validateRow ::
  "runtime \<Rightarrow> int \<times> int \<Rightarrow> excel_row \<Rightarrow> sheet_config \<Rightarrow> nat \<Rightarrow> string \<Rightarrow>
   js_error + row_result" where
  "validateRow rt reads r config rowNumber sheet_name =
     (case validateRow_loop rt reads r config rowNumber sheet_name (columnMapping config)
             ([], Map.empty, True) of
        Inl e \<Rightarrow> Inl e
      | Inr (errors, transformedData, valid) \<Rightarrow>
          Inr \<lparr>isValid = valid,
               row_data =
                 (if valid then Some (transformedData(''sheetName'' \<mapsto> JStr sheet_name))
                  else None),
               row_errors = errors\<rparr>)"

text \<open>
  \<open>validateSheetData\<close> uses the default configuration; \<open>sclock index\<close> are the two clock
  readings taken while the row at \<open>index\<close> is checked. The state of its \<open>forEach\<close> is
  \<open>(valid, errors)\<close>.
\<close>

type_synonym sheet_state = "(string \<Rightarrow> jsval option) list \<times> server_error list"

fun validateSheetData_loop ::
  "runtime \<Rightarrow> (nat \<Rightarrow> int \<times> int) \<Rightarrow> string \<Rightarrow> nat \<Rightarrow> excel_row list \<Rightarrow> sheet_state \<Rightarrow>
   js_error + sheet_state" where
  "validateSheetData_loop rt sclock sheet_name index [] st = Inr st"
| "validateSheetData_loop rt sclock sheet_name index (r # rs) st =
     (let rowNumber = index + 2 in
      case validateRow rt (sclock index) r default_config rowNumber sheet_name of
        Inl e \<Rightarrow> Inl e
      | Inr validatedRow \<Rightarrow>
          validateSheetData_loop rt sclock sheet_name (index + 1) rs
            (if isValid validatedRow
             then (fst st @ [the (row_data validatedRow)], snd st)
             else (fst st, snd st @ row_errors validatedRow)))"

definition validateSheetData ::
  "runtime \<Rightarrow> (nat \<Rightarrow> int \<times> int) \<Rightarrow> excel_row list \<Rightarrow> string \<Rightarrow> js_error + sheet_state" where
  "validateSheetData rt sclock rows sheet_name =
     validateSheetData_loop rt sclock sheet_name 0 rows ([], [])"

section \<open>The structural validator\<close>

text \<open>
  \<open>validateSheetStructure\<close> of \<open>utils/errorHandling.ts\<close>. The first three checks return
  at once; the check for missing columns pushes its finding and goes on to the check
  for extra columns.
\<close>

definition validateSheetStructure :: "sheet_data \<Rightarrow> finding list" where
  "validateSheetStructure data =
     (case data of
        NotArray \<Rightarrow> [sheet_finding 0 ''Invalid file format: Expected Excel data'' SevError]
      | Rows [] \<Rightarrow> [sheet_finding 0 ''Sheet is empty'' SevError]
      | Rows (firstRow # rest) \<Rightarrow>
          if length (firstRow # rest) > 10000
          then [sheet_finding 0
                  ''Sheet contains too many rows (>10,000). Please split the data into smaller files.''
                  SevError]
          else
            let missingColumns = filter (\<lambda>col. \<not> has_key firstRow col) requiredColumns;
                errors1 =
                  (if length missingColumns > 0
                   then [sheet_finding 0
                           (''Missing required columns: '' @ join '', '' missingColumns) SevError]
                   else []);
                extraColumns = filter (\<lambda>col. col \<notin> set requiredColumns) (object_keys firstRow)
            in if length extraColumns > 0
               then errors1 @
                    [sheet_finding 0
                       (''Warning: Found extra columns that will be ignored: ''
                          @ join '', '' extraColumns) SevWarning]
               else errors1)"

section \<open>The error aggregator\<close>

text \<open>
  \<open>formatValidationErrors\<close> reduces an array of references to finding objects into a
  plain object of arrays. The store of finding objects is a list, an object's address is
  its position; an object literal allocates at the end. The accumulator \<open>acc\<close> starts as
  \<open>{}\<close>, which inherits the properties of \<open>Object.prototype\<close>: for a sheet name that is
  one of them \<open>acc[sheetName]\<close> is that inherited function or object, so no array is
  created and \<open>push\<close> is not a function.
\<close>

type_synonym addr = nat
type_synonym heap = "finding list"
type_synonym buckets = "string \<Rightarrow> addr list option"

definition object_prototype_keys :: "string list" where
  "object_prototype_keys =
     [''constructor'', ''__defineGetter__'', ''__defineSetter__'', ''hasOwnProperty'',
      ''__lookupGetter__'', ''__lookupSetter__'', ''isPrototypeOf'', ''propertyIsEnumerable'',
      ''toString'', ''valueOf'', ''__proto__'', ''toLocaleString'']"

definition bucket_name :: "finding \<Rightarrow> string" where
  "bucket_name error = (if truthy_str (sheetName error) then the (sheetName error) else ''Unknown Sheet'')"

definition format_message :: "finding \<Rightarrow> string" where
  "format_message error =
     (if truthy_str (column error) then the (column error) @ '': '' @ message error
      else message error)"

definition format_step :: "heap \<times> buckets \<Rightarrow> addr \<Rightarrow> js_error + heap \<times> buckets" where
  "format_step st a =
     (case st of (h, acc) \<Rightarrow>
        let error = h ! a;
            name = bucket_name error
        in if name \<in> set object_prototype_keys
           then Inl (TypeError ''acc[sheetName].push is not a function'')
           else
             let bucket = (case acc name of None \<Rightarrow> [] | Some b \<Rightarrow> b);
                 copy = error\<lparr>message := format_message error\<rparr>
             in Inr (h @ [copy], acc(name \<mapsto> bucket @ [length h])))"

fun format_reduce :: "heap \<times> buckets \<Rightarrow> addr list \<Rightarrow> js_error + heap \<times> buckets" where
  "format_reduce st [] = Inr st"
| "format_reduce st (a # as) =
     (case format_step st a of Inl e \<Rightarrow> Inl e | Inr st' \<Rightarrow> format_reduce st' as)"

definition formatValidationErrors :: "heap \<Rightarrow> addr list \<Rightarrow> js_error + heap \<times> buckets" where
  "formatValidationErrors h errors = format_reduce (h, Map.empty) errors"

section \<open>The transport adapter\<close>

text \<open>
  \<open>ApiError\<close> is the payload of a failed response, \<open>AxiosError\<close> what axios rejects
  with: \<open>response\<close> when the server answered, \<open>request\<close> when a request was made (here
  whether the property is set), \<open>code\<close> such as \<open>ECONNABORTED\<close>.
\<close>

record ApiError =
  api_error :: "string option"
  api_errors :: "finding list option"
  api_message :: "string option"

record AxiosResponse =
  status :: nat
  data :: ApiError

record AxiosError =
  response :: "AxiosResponse option"
  request :: bool
  code :: "string option"
  axios_message :: string

definition status_message :: "nat \<Rightarrow> string" where
  "status_message s =
     (if s = 400 then ''Invalid data format. Please check your Excel file structure.''
      else if s = 401 then ''Unauthorized. Please log in again.''
      else if s = 403 then ''You do not have permission to perform this action.''
      else if s = 404 then ''The requested resource was not found.''
      else if s = 413 then ''The file is too large. Please split it into smaller files.''
      else if s = 422 then ''The uploaded file contains invalid data. Please check the file contents.''
      else if s = 429 then ''Too many requests. Please try again later.''
      else if s = 500 then ''Server error. Please try again later.''
      else ''Server error ('' @ show_nat s @ ''). Please try again later.'')"

definition handleAxiosError :: "AxiosError \<Rightarrow> string \<Rightarrow> string" where
  "handleAxiosError error defaultMessage =
     (case response error of
        Some resp \<Rightarrow>
          let d = data resp;
              criticalErrors =
                (case api_errors d of
                   None \<Rightarrow> []
                 | Some es \<Rightarrow> filter (\<lambda>e. severity e = Some SevError) es)
          in if length criticalErrors > 0 then message (hd criticalErrors)
             else if truthy_str (api_error d) then the (api_error d)
             else if truthy_str (api_message d) then the (api_message d)
             else status_message (status resp)
      | None \<Rightarrow>
          if request error then ''No response from server. Please check your connection.''
          else if code error = Some ''ECONNABORTED''
          then ''Request timed out. The file might be too large.''
          else if axios_message error \<noteq> [] then axios_message error
          else defaultMessage)"

text \<open>\<open>bucket_of acc k\<close> is \<open>acc[k] || []\<close>: the bucket of a sheet name, empty when there
  is none.\<close>

definition bucket_of :: "buckets \<Rightarrow> string \<Rightarrow> addr list" where
  "bucket_of acc k = (case acc k of None \<Rightarrow> [] | Some b \<Rightarrow> b)"

text \<open>The warning of the date block, and the errors the server records for one row
  (\<open>validatedRow.errors\<close> in \<open>validateSheetData\<close>).\<close>

definition is_future_warning :: "finding \<Rightarrow> bool" where
  "is_future_warning f = (column f = Some ''Date'' \<and> message f = ''Date is in the future'')"

definition server_row_errors ::
  "runtime \<Rightarrow> int \<times> int \<Rightarrow> excel_row \<Rightarrow> nat \<Rightarrow> string \<Rightarrow> server_error list" where
  "server_row_errors rt reads r rowNumber sname =
     (case validateRow rt reads r default_config rowNumber sname of
        Inl e \<Rightarrow> []
      | Inr res \<Rightarrow> row_errors res)"

text \<open>
  The verdict on one decoded row. On the client the row passes through the normalizer of
  \<open>handleFileSelect\<close> and then through the body of the \<open>forEach\<close> of
  \<open>validateExcelData\<close>: \<open>client_accepts\<close> says that the body pushes nothing onto
  \<open>errors\<close> (warnings do not count), \<open>client_clean\<close> that it pushes nothing at all,
  which is what \<open>handleValidate\<close> tests (\<open>errors.length > 0\<close> on the returned list)
  before it sends the file. An exception of the normalizer leaves no row to check. On the
  server the verdict is \<open>isValid\<close> of \<open>validateRow\<close> under the default configuration.
\<close>

definition client_accepts :: "runtime \<Rightarrow> int \<Rightarrow> nat \<Rightarrow> excel_row \<Rightarrow> bool" where
  "client_accepts rt now index r =
     (case processRow rt r of
        Inl e \<Rightarrow> False
      | Inr r' \<Rightarrow> fst (validate_row rt now index r' ([], [])) = [])"

definition client_clean :: "runtime \<Rightarrow> int \<Rightarrow> nat \<Rightarrow> excel_row \<Rightarrow> bool" where
  "client_clean rt now index r =
     (case processRow rt r of
        Inl e \<Rightarrow> False
      | Inr r' \<Rightarrow> validate_row rt now index r' ([], []) = ([], []))"

definition server_accepts ::
  "runtime \<Rightarrow> int \<times> int \<Rightarrow> excel_row \<Rightarrow> nat \<Rightarrow> string \<Rightarrow> bool" where
  "server_accepts rt reads r rowNumber sname =
     (case validateRow rt reads r default_config rowNumber sname of
        Inl e \<Rightarrow> False
      | Inr res \<Rightarrow> isValid res)"

text \<open>
  The cells on which the rules of the two sides give the same answer, column by column.
  \<^item> \<open>Name\<close>: the client wants a string with a character that is not white space, the
    server any truthy value.
  \<^item> \<open>Amount\<close>: the client wants a number above 0, the server a truthy cell whose number
    is not below 0.
  \<^item> \<open>Date\<close>: the client wants a truthy cell that, normalized, is a date; the server a
    truthy cell that is a date between twelve months before its clock reading and that
    reading. The normalizer reads a number as a serial day, the server as milliseconds.
  \<^item> \<open>Verified\<close>: the client wants a string or a boolean; the server accepts a falsy cell
    and a string, and its \<open>transform\<close> throws on any other value.
\<close>

definition name_agrees :: "jsval \<Rightarrow> bool" where
  "name_agrees v = (case v of JStr s \<Rightarrow> s = [] \<or> trim s \<noteq> [] | _ \<Rightarrow> \<not> truthy v)"

definition amount_agrees :: "runtime \<Rightarrow> jsval \<Rightarrow> bool" where
  "amount_agrees rt v =
     (if truthy v then ToNumber rt v \<noteq> Fin 0 else \<not> num_lt (Fin 0) (ToNumber rt v))"

definition date_agrees :: "runtime \<Rightarrow> int \<times> int \<Rightarrow> jsval \<Rightarrow> bool" where
  "date_agrees rt reads v =
     (\<not> truthy v \<or>
      (case v of
         JNum n \<Rightarrow> isCurrentMonth rt reads (new_Date rt v)
       | _ \<Rightarrow> new_Date rt v = None \<or> isCurrentMonth rt reads (new_Date rt v)))"

definition verified_agrees :: "jsval \<Rightarrow> bool" where
  "verified_agrees v =
     (case v of
        JStr s \<Rightarrow> True
      | JBool b \<Rightarrow> \<not> b
      | JNum n \<Rightarrow> truthy v
      | JDate d \<Rightarrow> True
      | _ \<Rightarrow> False)"

definition agreeing_row :: "runtime \<Rightarrow> int \<times> int \<Rightarrow> excel_row \<Rightarrow> bool" where
  "agreeing_row rt reads r =
     (name_agrees (get_prop r ''Name'') \<and> amount_agrees rt (get_prop r ''Amount'') \<and>
      date_agrees rt reads (get_prop r ''Date'') \<and> verified_agrees (get_prop r ''Verified''))"

text \<open>One pass of the loop of \<open>validateRow\<close> leaves \<open>isValid\<close> as it is: the column
  has a validation object, is not both required and falsy, and \<open>validateField\<close>
  returns.\<close>

definition column_ok ::
  "runtime \<Rightarrow> int \<times> int \<Rightarrow> excel_row \<Rightarrow> sheet_config \<Rightarrow> string \<times> string \<Rightarrow> bool" where
  "column_ok rt reads r config col =
     (case map_of (validations config) (snd col) of
        None \<Rightarrow> False
      | Some vd \<Rightarrow>
          \<not> (required vd \<and> \<not> truthy (get_prop r (fst col))) \<and>
          (case validateField rt reads (get_prop r (fst col)) vd (fst col) of
             Inl e \<Rightarrow> False | Inr v \<Rightarrow> True))"

section \<open>A runtime and inputs for the examples\<close>

text \<open>
  \<open>basic_runtime\<close> runs in UTC, reads no date format beyond the date-only form, reads
  a string of decimal digits with an optional minus sign as a number (blank is 0) and
  prints an integer in decimal. No example depends on the text it gives a number with a
  fraction or a date.
\<close>

definition show_int :: "int \<Rightarrow> string" where
  "show_int i = (if i < 0 then ''-'' @ show_nat (nat (- i)) else show_nat (nat i))"

definition basic_number :: "string \<Rightarrow> jsnum" where
  "basic_number s =
     (let t = trim s in
      if t = [] then Fin 0
      else if hd t = CHR ''-'' \<and> tl t \<noteq> []
      then (case digits_val 0 (tl t) of Some n \<Rightarrow> Fin (- real n) | None \<Rightarrow> NaN)
      else (case digits_val 0 t of Some n \<Rightarrow> Fin (real n) | None \<Rightarrow> NaN))"

definition basic_string :: "jsval \<Rightarrow> string" where
  "basic_string v =
     (case v of
        JUndefined \<Rightarrow> ''undefined''
      | JNull \<Rightarrow> ''null''
      | JBool b \<Rightarrow> (if b then ''true'' else ''false'')
      | JStr s \<Rightarrow> s
      | JNum NaN \<Rightarrow> ''NaN''
      | JNum PosInf \<Rightarrow> ''Infinity''
      | JNum NegInf \<Rightarrow> ''-Infinity''
      | JNum (Fin x) \<Rightarrow> show_int \<lfloor>x\<rfloor>
      | JDate None \<Rightarrow> ''Invalid Date''
      | JDate (Some t) \<Rightarrow> iso_date (Day t))"

definition basic_runtime :: runtime where
  "basic_runtime =
     \<lparr>StringToNumber = basic_number, DateParseOther = (\<lambda>s. None),
      ToString = basic_string, LocalTZA = (\<lambda>t u. 0)\<rparr>"

text \<open>Rows and clock readings: a row without findings, one with a large amount, and the
  row of the scenario with four errors; noon of 4 January 2024 and the start of
  February 2024, in milliseconds.\<close>

definition row_ok :: excel_row where
  "row_ok =
     [(''Name'', JStr ''A''), (''Amount'', JNum (Fin 50)), (''Date'', JStr ''2024-01-05''),
      (''Verified'', JBool True)]"

definition row_large :: excel_row where
  "row_large =
     [(''Name'', JStr ''A''), (''Amount'', JNum (Fin 2000000)), (''Date'', JStr ''2024-01-05''),
      (''Verified'', JStr ''Yes'')]"

definition row_bad :: excel_row where
  "row_bad =
     [(''Name'', JStr []), (''Amount'', JNum (Fin (- 5))), (''Date'', JStr ''bad''),
      (''Verified'', JStr ''maybe'')]"

definition noon_4_Jan_2024 :: int where
  "noon_4_Jan_2024 = 1704369600000"

definition start_Feb_2024 :: int where
  "start_Feb_2024 = 1706745600000"

text \<open>A first row without the column \<open>Verified\<close>, and one that also has a column
  \<open>Note\<close>.\<close>

definition header_without_Verified :: excel_row where
  "header_without_Verified =
     [(''Name'', JStr ''A''), (''Amount'', JNum (Fin 50)), (''Date'', JStr ''2024-01-05'')]"

definition header_with_Note :: excel_row where
  "header_with_Note =
     [(''Name'', JStr ''A''), (''Amount'', JNum (Fin 50)), (''Date'', JStr ''2024-01-05''),
      (''Note'', JStr ''x'')]"

text \<open>A store of three findings, and one whose finding has an empty sheet name and an
  empty column.\<close>

definition three_findings :: heap where
  "three_findings =
     [\<lparr>row = 2, column = Some ''Amount'', message = ''must be a number'',
       sheetName = Some ''Sheet1'', severity = Some SevError\<rparr>,
      \<lparr>row = 0, column = None, message = ''Sheet is empty'',
       sheetName = None, severity = Some SevError\<rparr>,
      \<lparr>row = 3, column = Some ''Name'', message = ''Name is required'',
       sheetName = Some ''Sheet1'', severity = Some SevError\<rparr>]"

definition empty_names_finding :: finding where
  "empty_names_finding =
     \<lparr>row = 2, column = Some [], message = ''must be a number'',
      sheetName = Some [], severity = Some SevError\<rparr>"

text \<open>Failures as axios reports them: a payload with findings, one with an \<open>error\<close>
  field, one with a \<open>message\<close> field only, no response, a request that timed out, and
  an aborted request that never left.\<close>

definition payload_findings :: "finding list" where
  "payload_findings =
     [\<lparr>row = 1, column = Some ''Name'', message = ''Name is unusually long (>100 characters)'',
       sheetName = None, severity = Some SevWarning\<rparr>,
      \<lparr>row = 2, column = Some ''Amount'', message = ''Amount must be a number'',
       sheetName = None, severity = Some SevError\<rparr>,
      \<lparr>row = 3, column = Some ''Date'', message = ''Date is required'',
       sheetName = None, severity = Some SevError\<rparr>]"

definition failure_with_findings :: AxiosError where
  "failure_with_findings =
     \<lparr>response = Some \<lparr>status = 400,
                         data = \<lparr>api_error = Some ''Validation Error'',
                                  api_errors = Some payload_findings,
                                  api_message = None\<rparr>\<rparr>,
      request = True, code = Some ''ERR_BAD_REQUEST'',
      axios_message = ''Request failed with status code 400''\<rparr>"

definition failure_with_error :: AxiosError where
  "failure_with_error =
     \<lparr>response = Some \<lparr>status = 500,
                         data = \<lparr>api_error = Some ''No validated data found'',
                                  api_errors = None,
                                  api_message = Some ''ignored''\<rparr>\<rparr>,
      request = True, code = Some ''ERR_BAD_RESPONSE'',
      axios_message = ''Request failed with status code 500''\<rparr>"

definition failure_with_message :: AxiosError where
  "failure_with_message =
     \<lparr>response = Some \<lparr>status = 500,
                         data = \<lparr>api_error = None, api_errors = Some [],
                                  api_message = Some ''Try again''\<rparr>\<rparr>,
      request = True, code = Some ''ERR_BAD_RESPONSE'',
      axios_message = ''Request failed with status code 500''\<rparr>"

definition failure_no_response :: AxiosError where
  "failure_no_response =
     \<lparr>response = None, request = True, code = Some ''ERR_NETWORK'',
      axios_message = ''Network Error''\<rparr>"

definition failure_timed_out :: AxiosError where
  "failure_timed_out =
     \<lparr>response = None, request = True, code = Some ''ECONNABORTED'',
      axios_message = ''timeout of 30000ms exceeded''\<rparr>"

definition failure_aborted :: AxiosError where
  "failure_aborted =
     \<lparr>response = None, request = False, code = Some ''ECONNABORTED'',
      axios_message = ''timeout of 1000ms exceeded''\<rparr>"

text \<open>A row of the four columns.\<close>

definition example_row :: "jsval \<Rightarrow> jsval \<Rightarrow> jsval \<Rightarrow> jsval \<Rightarrow> excel_row" where
  "example_row n a d v = [(''Name'', n), (''Amount'', a), (''Date'', d), (''Verified'', v)]"

section \<open>The structural validator: missing columns\<close>

text \<open>
  Claim C5 says that a first row without a required column makes \<open>validateSheetStructure\<close>
  return at once with exactly one finding. The code pushes the finding and goes on: for
  the header Name, Amount, Date, Note it returns two findings, the error for the missing
  column and the warning for the extra one.
\<close>

theorem validateSheetStructure_missing_and_extra:
  "validateSheetStructure (Rows [header_with_Note]) =
     [sheet_finding 0 ''Missing required columns: Verified'' SevError,
      sheet_finding 0 ''Warning: Found extra columns that will be ignored: Note'' SevWarning]
   \<and> length (validateSheetStructure (Rows [header_with_Note])) \<noteq> 1"
  by (simp add: header_with_Note_def validateSheetStructure_def has_key_def
      requiredColumns_def object_keys_def)

text \<open>
  Claim C5, amended: for a sheet that passes the checks 1 to 3 and whose first row lacks a
  required column, the result starts with the error finding at row 0 that lists the
  missing columns; the check for extra columns still runs, so the result is that finding
  alone exactly when the first row has no key beyond the required four, and otherwise the
  warning that lists the extra keys follows it.
\<close>

theorem validateSheetStructure_missing_columns:
  assumes "length (firstRow # rest) \<le> 10000"
      and "filter (\<lambda>col. \<not> has_key firstRow col) requiredColumns \<noteq> []"
  shows "validateSheetStructure (Rows (firstRow # rest)) =
           sheet_finding 0
             (''Missing required columns: '' @
              join '', '' (filter (\<lambda>col. \<not> has_key firstRow col) requiredColumns)) SevError #
           (if filter (\<lambda>col. col \<notin> set requiredColumns) (object_keys firstRow) = [] then []
            else [sheet_finding 0
                    (''Warning: Found extra columns that will be ignored: '' @
                     join '', '' (filter (\<lambda>col. col \<notin> set requiredColumns) (object_keys firstRow)))
                    SevWarning])"
  using assms by (simp add: validateSheetStructure_def Let_def)

theorem validateSheetStructure_missing_columns_witness:
  "validateSheetStructure (Rows [header_without_Verified]) =
     [sheet_finding 0 ''Missing required columns: Verified'' SevError]"
  using validateSheetStructure_missing_columns [of header_without_Verified "[]"]
  by (simp add: header_without_Verified_def has_key_def requiredColumns_def object_keys_def)

section \<open>The error aggregator: buckets\<close>

lemma format_step_Inr:
  assumes "a < length h" and "bucket_name (h ! a) \<notin> set object_prototype_keys"
  shows "format_step (h, acc) a =
           Inr (h @ [(h ! a)\<lparr>message := format_message (h ! a)\<rparr>],
                acc(bucket_name (h ! a) \<mapsto> bucket_of acc (bucket_name (h ! a)) @ [length h]))"
  using assms by (simp add: format_step_def Let_def bucket_of_def)

lemma format_reduce_buckets:
  assumes "\<forall>a\<in>set as. a < length h0"
      and "\<forall>a\<in>set as. bucket_name (h0 ! a) \<notin> set object_prototype_keys"
      and "take (length h0) h = h0"
      and "\<forall>k. \<forall>a\<in>set (bucket_of acc k). a < length h"
  shows "\<exists>h' acc'. format_reduce (h, acc) as = Inr (h', acc')
           \<and> take (length h) h' = h
           \<and> (\<forall>k. map ((!) h') (bucket_of acc' k) =
                    map ((!) h) (bucket_of acc k) @
                    map (\<lambda>f. f\<lparr>message := format_message f\<rparr>)
                      (filter (\<lambda>f. bucket_name f = k) (map ((!) h0) as)))
           \<and> (\<forall>k. acc' k = None \<longleftrightarrow> acc k = None \<and> (\<forall>a\<in>set as. bucket_name (h0 ! a) \<noteq> k))"
  using assms
proof (induction as arbitrary: h acc)
  case Nil
  then show ?case by simp
next
  case (Cons a as)
  have a: "a < length h0" and nm: "bucket_name (h0 ! a) \<notin> set object_prototype_keys"
    using Cons.prems by auto
  have len: "length h0 \<le> length h"
  proof -
    have "length (take (length h0) h) = length h0" using Cons.prems(3) by simp
    then show ?thesis by simp
  qed
  have ha: "h ! a = h0 ! a"
    using Cons.prems(3) a by (metis nth_take)
  let ?n = "bucket_name (h0 ! a)"
  let ?h1 = "h @ [(h0 ! a)\<lparr>message := format_message (h0 ! a)\<rparr>]"
  let ?acc1 = "acc(?n \<mapsto> bucket_of acc ?n @ [length h])"
  have step: "format_step (h, acc) a = Inr (?h1, ?acc1)"
    using format_step_Inr[of a h acc] a len nm ha by simp
  have p1: "\<forall>a\<in>set as. a < length h0"
    and p2: "\<forall>a\<in>set as. bucket_name (h0 ! a) \<notin> set object_prototype_keys"
    using Cons.prems by auto
  have p3: "take (length h0) ?h1 = h0" using Cons.prems(3) len by simp
  have p4: "\<forall>k. \<forall>b\<in>set (bucket_of ?acc1 k). b < length ?h1"
    using Cons.prems(4) by (auto simp: bucket_of_def less_Suc_eq split: option.splits if_splits)
  from Cons.IH[OF p1 p2 p3 p4] obtain h' acc' where
    r: "format_reduce (?h1, ?acc1) as = Inr (h', acc')"
    and t: "take (length ?h1) h' = ?h1"
    and c: "\<forall>k. map ((!) h') (bucket_of acc' k) =
                 map ((!) ?h1) (bucket_of ?acc1 k) @
                 map (\<lambda>f. f\<lparr>message := format_message f\<rparr>)
                   (filter (\<lambda>f. bucket_name f = k) (map ((!) h0) as))"
    and n: "\<forall>k. acc' k = None \<longleftrightarrow> ?acc1 k = None \<and> (\<forall>a\<in>set as. bucket_name (h0 ! a) \<noteq> k)"
    by blast
  have t': "take (length h) h' = h"
  proof -
    have "take (length h) (take (length ?h1) h') = take (length h) ?h1" using t by simp
    then show ?thesis by (simp add: min_def)
  qed
  have old: "\<And>k. map ((!) ?h1) (bucket_of acc k) = map ((!) h) (bucket_of acc k)"
    using Cons.prems(4) by (auto simp: nth_append)
  have c': "\<forall>k. map ((!) h') (bucket_of acc' k) =
                 map ((!) h) (bucket_of acc k) @
                 map (\<lambda>f. f\<lparr>message := format_message f\<rparr>)
                   (filter (\<lambda>f. bucket_name f = k) (map ((!) h0) (a # as)))"
  proof
    fix k
    show "map ((!) h') (bucket_of acc' k) =
                 map ((!) h) (bucket_of acc k) @
                 map (\<lambda>f. f\<lparr>message := format_message f\<rparr>)
                   (filter (\<lambda>f. bucket_name f = k) (map ((!) h0) (a # as)))"
    proof (cases "k = ?n")
      case True
      have "bucket_of ?acc1 k = bucket_of acc k @ [length h]"
        using True by (simp add: bucket_of_def)
      then have "map ((!) ?h1) (bucket_of ?acc1 k) =
                   map ((!) h) (bucket_of acc k) @ [(h0 ! a)\<lparr>message := format_message (h0 ! a)\<rparr>]"
        using old[of k] by simp
      then show ?thesis using c True by simp
    next
      case False
      then have "bucket_of ?acc1 k = bucket_of acc k" by (simp add: bucket_of_def)
      then show ?thesis using c old[of k] False by auto
    qed
  qed
  have n': "\<forall>k. acc' k = None \<longleftrightarrow> acc k = None \<and> (\<forall>b\<in>set (a # as). bucket_name (h0 ! b) \<noteq> k)"
    using n by auto
  show ?case using step r t' c' n' by simp
qed

text \<open>
  Claim C7 says that a finding goes to the bucket named by its \<open>sheetName\<close> unless that
  is absent, and that its message is rewritten exactly when \<open>column\<close> is present. The
  code tests both properties for truth: a finding whose \<open>sheetName\<close> and \<open>column\<close> are
  present but empty goes to \<open>Unknown Sheet\<close> with its message as it was.
\<close>

theorem formatValidationErrors_empty_names:
  "(case formatValidationErrors [empty_names_finding] [0] of
      Inl e \<Rightarrow> False
    | Inr (h', acc) \<Rightarrow>
        acc [] = None \<and> map ((!) h') (bucket_of acc ''Unknown Sheet'') = [empty_names_finding])"
  by (simp add: formatValidationErrors_def format_step_def bucket_name_def format_message_def
      empty_names_finding_def object_prototype_keys_def bucket_of_def Let_def)

text \<open>
  Claim C7, amended: for findings whose bucket name is not the name of a property of
  \<open>Object.prototype\<close>, \<open>formatValidationErrors\<close> returns a mapping from sheet name to
  findings; a finding lies in the bucket named by its \<open>sheetName\<close> when that is a
  non-empty string and in \<open>Unknown Sheet\<close> when it is absent or empty; a bucket holds its
  findings in input order; a message becomes \<open>column: message\<close> exactly when \<open>column\<close> is a
  non-empty string; a sheet name without findings has no bucket; and every finding object
  that existed before the call is unchanged after it (the buckets hold copies).
\<close>

theorem formatValidationErrors_buckets:
  assumes "\<forall>a\<in>set errors. a < length h"
      and "\<forall>a\<in>set errors. bucket_name (h ! a) \<notin> set object_prototype_keys"
  shows "\<exists>h' acc.
           formatValidationErrors h errors = Inr (h', acc)
         \<and> take (length h) h' = h
         \<and> (\<forall>k. map ((!) h') (bucket_of acc k) =
                  map (\<lambda>f. f\<lparr>message := format_message f\<rparr>)
                    (filter (\<lambda>f. bucket_name f = k) (map ((!) h) errors)))
         \<and> (\<forall>k. acc k = None \<longleftrightarrow> (\<forall>a\<in>set errors. bucket_name (h ! a) \<noteq> k))
         \<and> (\<forall>f. bucket_name f =
                  (case sheetName f of
                     None \<Rightarrow> ''Unknown Sheet''
                   | Some s \<Rightarrow> if s = [] then ''Unknown Sheet'' else s))
         \<and> (\<forall>f. format_message f =
                  (case column f of
                     None \<Rightarrow> message f
                   | Some c \<Rightarrow> if c = [] then message f else c @ '': '' @ message f))"
proof -
  have t0: "take (length h) h = h"
    by simp
  have "\<forall>k. \<forall>a\<in>set (bucket_of Map.empty k). a < length h"
    by (simp add: bucket_of_def)
  from format_reduce_buckets[OF assms t0 this]
  obtain h' acc where
    "format_reduce (h, Map.empty) errors = Inr (h', acc)"
    "take (length h) h' = h"
    "\<forall>k. map ((!) h') (bucket_of acc k) =
          map ((!) h) (bucket_of Map.empty k) @
          map (\<lambda>f. f\<lparr>message := format_message f\<rparr>)
            (filter (\<lambda>f. bucket_name f = k) (map ((!) h) errors))"
    "\<forall>k. acc k = None \<longleftrightarrow> Map.empty k = None \<and> (\<forall>a\<in>set errors. bucket_name (h ! a) \<noteq> k)"
    by auto
  moreover have "\<forall>f. bucket_name f =
                  (case sheetName f of
                     None \<Rightarrow> ''Unknown Sheet''
                   | Some s \<Rightarrow> if s = [] then ''Unknown Sheet'' else s)"
    by (simp add: bucket_name_def split: option.splits)
  moreover have "\<forall>f. format_message f =
                  (case column f of
                     None \<Rightarrow> message f
                   | Some c \<Rightarrow> if c = [] then message f else c @ '': '' @ message f)"
    by (simp add: format_message_def split: option.splits)
  ultimately show ?thesis
    by (simp add: formatValidationErrors_def bucket_of_def)
qed

theorem formatValidationErrors_buckets_witness:
  "\<exists>h' acc.
     formatValidationErrors three_findings [0, 1, 2] = Inr (h', acc)
   \<and> take 3 h' = three_findings
   \<and> map ((!) h') (bucket_of acc ''Sheet1'') =
       [\<lparr>row = 2, column = Some ''Amount'', message = ''Amount: must be a number'',
         sheetName = Some ''Sheet1'', severity = Some SevError\<rparr>,
        \<lparr>row = 3, column = Some ''Name'', message = ''Name: Name is required'',
         sheetName = Some ''Sheet1'', severity = Some SevError\<rparr>]
   \<and> map ((!) h') (bucket_of acc ''Unknown Sheet'') =
       [\<lparr>row = 0, column = None, message = ''Sheet is empty'',
         sheetName = None, severity = Some SevError\<rparr>]
   \<and> acc ''Sheet2'' = None"
proof -
  have v: "\<forall>a\<in>set [0, 1, 2]. a < length three_findings"
    by (simp add: three_findings_def)
  have n: "\<forall>a\<in>set [0, 1, 2]. bucket_name (three_findings ! a) \<notin> set object_prototype_keys"
    by (simp add: three_findings_def bucket_name_def object_prototype_keys_def)
  from formatValidationErrors_buckets[OF v n] obtain h' acc where
    r: "formatValidationErrors three_findings [0, 1, 2] = Inr (h', acc)"
    and t: "take (length three_findings) h' = three_findings"
    and b: "\<forall>k. map ((!) h') (bucket_of acc k) =
                 map (\<lambda>f. f\<lparr>message := format_message f\<rparr>)
                   (filter (\<lambda>f. bucket_name f = k) (map ((!) three_findings) [0, 1, 2]))"
    and e: "\<forall>k. acc k = None \<longleftrightarrow> (\<forall>a\<in>set [0, 1, 2]. bucket_name (three_findings ! a) \<noteq> k)"
    by blast
  have l: "length three_findings = 3" by (simp add: three_findings_def)
  have b1: "map ((!) h') (bucket_of acc ''Sheet1'') =
       [\<lparr>row = 2, column = Some ''Amount'', message = ''Amount: must be a number'',
         sheetName = Some ''Sheet1'', severity = Some SevError\<rparr>,
        \<lparr>row = 3, column = Some ''Name'', message = ''Name: Name is required'',
         sheetName = Some ''Sheet1'', severity = Some SevError\<rparr>]"
    using b by (simp add: three_findings_def bucket_name_def format_message_def)
  have b2: "map ((!) h') (bucket_of acc ''Unknown Sheet'') =
       [\<lparr>row = 0, column = None, message = ''Sheet is empty'',
         sheetName = None, severity = Some SevError\<rparr>]"
    using b by (simp add: three_findings_def bucket_name_def format_message_def)
  have b3: "acc ''Sheet2'' = None"
    using e by (simp add: three_findings_def bucket_name_def)
  show ?thesis using r t l b1 b2 b3 by simp
qed

section \<open>The transport adapter: which message is shown\<close>

text \<open>
  What \<open>handleAxiosError\<close> returns, branch by branch. With a response whose payload lists
  findings, the message of the first finding of severity error is returned as it is;
  without such a finding the payload's \<open>error\<close> field is returned when it is a non-empty
  string, else its \<open>message\<close> field when that is; without a response the connectivity
  message is returned when a request was made, and the timeout message when none was and
  the code is \<open>ECONNABORTED\<close>.
\<close>

lemma handleAxiosError_priority:
  "(response e = Some r \<longrightarrow> api_errors (data r) = Some (pre @ c # post) \<longrightarrow>
      (\<forall>x\<in>set pre. severity x \<noteq> Some SevError) \<longrightarrow> severity c = Some SevError \<longrightarrow>
      handleAxiosError e d = message c)
 \<and> (response e = Some r \<longrightarrow>
      (api_errors (data r) = None \<or>
       (\<exists>es. api_errors (data r) = Some es \<and> (\<forall>x\<in>set es. severity x \<noteq> Some SevError))) \<longrightarrow>
      ((api_error (data r) = Some s \<and> s \<noteq> [] \<longrightarrow> handleAxiosError e d = s)
     \<and> (\<not> truthy_str (api_error (data r)) \<and> api_message (data r) = Some m \<and> m \<noteq> [] \<longrightarrow>
          handleAxiosError e d = m)))
 \<and> (response e = None \<and> request e \<longrightarrow>
      handleAxiosError e d = ''No response from server. Please check your connection.'')
 \<and> (response e = None \<and> \<not> request e \<and> code e = Some ''ECONNABORTED'' \<longrightarrow>
      handleAxiosError e d = ''Request timed out. The file might be too large.'')"
  by (auto simp: handleAxiosError_def Let_def filter_empty_conv split: option.splits)

lemma handleAxiosError_priority_examples:
  "handleAxiosError failure_with_findings ''An error occurred'' = ''Amount must be a number''
 \<and> handleAxiosError failure_with_error ''An error occurred'' = ''No validated data found''
 \<and> handleAxiosError failure_with_message ''An error occurred'' = ''Try again''
 \<and> handleAxiosError failure_no_response ''An error occurred'' =
     ''No response from server. Please check your connection.''
 \<and> handleAxiosError failure_aborted ''An error occurred'' =
     ''Request timed out. The file might be too large.''"
proof -
  have 1: "handleAxiosError failure_with_findings ''An error occurred'' = ''Amount must be a number''"
    using handleAxiosError_priority
      [of failure_with_findings "the (response failure_with_findings)"
          "[payload_findings ! 0]" "payload_findings ! 1" "[payload_findings ! 2]"
          "''An error occurred''"]
    by (simp add: failure_with_findings_def payload_findings_def)
  have 2: "handleAxiosError failure_with_error ''An error occurred'' = ''No validated data found''"
    using handleAxiosError_priority
      [of failure_with_error "the (response failure_with_error)" _ _ _ "''An error occurred''"
          "''No validated data found''"]
    by (simp add: failure_with_error_def)
  have 3: "handleAxiosError failure_with_message ''An error occurred'' = ''Try again''"
    using handleAxiosError_priority
      [of failure_with_message "the (response failure_with_message)" _ _ _ "''An error occurred''"
          _ "''Try again''"]
    by (simp add: failure_with_message_def)
  have 4: "handleAxiosError failure_no_response ''An error occurred'' =
     ''No response from server. Please check your connection.''"
    using handleAxiosError_priority [of failure_no_response _ _ _ _ "''An error occurred''"]
    by (simp add: failure_no_response_def)
  have 5: "handleAxiosError failure_aborted ''An error occurred'' =
     ''Request timed out. The file might be too large.''"
    using handleAxiosError_priority [of failure_aborted _ _ _ _ "''An error occurred''"]
    by (simp add: failure_aborted_def)
  show ?thesis using 1 2 3 4 5 by simp
qed

text \<open>
  Claim C8 says that an aborted request, a timeout, gets the timeout message. The branch
  that returns it is tested after \<open>error.request\<close>: a request that timed out was made,
  axios sets \<open>request\<close> (and the code \<open>ECONNABORTED\<close>) on its error, and
  \<open>handleAxiosError\<close> returns the connectivity message for it; the timeout message is
  returned only for an error without a request.
\<close>

theorem handleAxiosError_timed_out_request:
  "handleAxiosError failure_timed_out ''An error occurred'' =
     ''No response from server. Please check your connection.''
 \<and> handleAxiosError failure_timed_out ''An error occurred'' \<noteq>
     ''Request timed out. The file might be too large.''"
  by (simp add: handleAxiosError_def failure_timed_out_def)

section \<open>The normalizer: the field Verified\<close>

lemma not_date_key_Verified: "\<not> is_date_key ''Verified''"
  by (simp add: is_date_key_def ci_match_def)

text \<open>
  Claim C3 says that the tokens \<open>yes\<close> and \<open>true\<close> become true, \<open>no\<close> and \<open>false\<close>
  become false and any other string is passed on. The code compares the lower-cased and
  trimmed string with \<open>yes\<close> alone and stores the result of the comparison: \<open>maybe\<close>
  becomes false, and so does \<open>true\<close>.
\<close>

theorem processCell_Verified_other_string:
  "processCell basic_runtime ''Verified'' (JStr ''maybe'') = Inr (JBool False)
 \<and> processCell basic_runtime ''Verified'' (JStr ''maybe'') \<noteq> Inr (JStr ''maybe'')
 \<and> processCell basic_runtime ''Verified'' (JStr ''true'') = Inr (JBool False)"
  by code_simp

text \<open>
  Claim C3, amended: for the field \<open>Verified\<close> a string is lower-cased and trimmed; the
  token \<open>yes\<close> becomes true; every token other than \<open>yes\<close> and \<open>true\<close>, the tokens \<open>no\<close>
  and \<open>false\<close> among them, becomes false; every string, whatever its token, becomes a
  boolean, so no string is passed on unchanged; a boolean is kept; a value of any other
  type becomes null. (Which boolean the token \<open>true\<close> becomes is left open here.)
\<close>

theorem processCell_Verified:
  "(trim (toLowerCase s) = ''yes'' \<longrightarrow> processCell rt ''Verified'' (JStr s) = Inr (JBool True))
 \<and> (trim (toLowerCase s) \<noteq> ''yes'' \<and> trim (toLowerCase s) \<noteq> ''true'' \<longrightarrow>
      processCell rt ''Verified'' (JStr s) = Inr (JBool False))
 \<and> (processCell rt ''Verified'' (JStr s) = Inr (JBool True) \<or>
      processCell rt ''Verified'' (JStr s) = Inr (JBool False))
 \<and> processCell rt ''Verified'' (JStr s) \<noteq> Inr (JStr s)
 \<and> processCell rt ''Verified'' (JBool b) = Inr (JBool b)
 \<and> ((\<forall>s'. v \<noteq> JStr s') \<and> (\<forall>b'. v \<noteq> JBool b') \<longrightarrow> processCell rt ''Verified'' v = Inr JNull)"
  by (cases v) (simp_all add: processCell_def)

lemma token_YES: "trim (toLowerCase '' YES  '') = ''yes''"
  by code_simp

lemma token_No:
  "trim (toLowerCase ''No'') \<noteq> ''yes'' \<and> trim (toLowerCase ''No'') \<noteq> ''true''"
  by code_simp

theorem processCell_Verified_witness:
  "processCell basic_runtime ''Verified'' (JStr '' YES  '') = Inr (JBool True)
 \<and> processCell basic_runtime ''Verified'' (JStr ''No'') = Inr (JBool False)
 \<and> (processCell basic_runtime ''Verified'' (JStr ''true'') = Inr (JBool True) \<or>
      processCell basic_runtime ''Verified'' (JStr ''true'') = Inr (JBool False))
 \<and> processCell basic_runtime ''Verified'' (JStr ''true'') \<noteq> Inr (JStr ''true'')
 \<and> processCell basic_runtime ''Verified'' (JBool True) = Inr (JBool True)
 \<and> processCell basic_runtime ''Verified'' (JNum (Fin 1)) = Inr JNull"
proof -
  note y = processCell_Verified [of "'' YES  ''" basic_runtime True "JNum (Fin 1)"]
  note n = processCell_Verified [of "''No''" basic_runtime True "JNum (Fin 1)"]
  note t = processCell_Verified [of "''true''" basic_runtime True "JNum (Fin 1)"]
  have 1: "processCell basic_runtime ''Verified'' (JStr '' YES  '') = Inr (JBool True)"
    using y token_YES by blast
  have 2: "processCell basic_runtime ''Verified'' (JStr ''No'') = Inr (JBool False)"
    using n token_No by blast
  have 3: "processCell basic_runtime ''Verified'' (JStr ''true'') = Inr (JBool True) \<or>
           processCell basic_runtime ''Verified'' (JStr ''true'') = Inr (JBool False)"
    using t by blast
  have 4: "processCell basic_runtime ''Verified'' (JStr ''true'') \<noteq> Inr (JStr ''true'')"
    using t by blast
  have 5: "processCell basic_runtime ''Verified'' (JBool True) = Inr (JBool True)"
    using y by blast
  have 6: "processCell basic_runtime ''Verified'' (JNum (Fin 1)) = Inr JNull"
    using y by simp
  show ?thesis using 1 2 3 4 5 6 by blast
qed

section \<open>The normalizer: date cells that are neither number nor string\<close>

text \<open>
  Claim C10: for a key that matches the date pattern, a cell that is truthy but neither
  a number nor a string (a Date object, or the boolean true) is left as it is: the
  normalizer returns the very value, and the processed row holds it at the place of the
  cell.
\<close>

theorem processCell_date_other_unchanged:
  assumes "is_date_key key" and "truthy v" and "\<forall>n. v \<noteq> JNum n" and "\<forall>s. v \<noteq> JStr s"
  shows "processCell rt key v = Inr v
       \<and> (\<forall>pre post r'. processRow rt (pre @ (key, v) # post) = Inr r' \<longrightarrow>
            r' ! length pre = (key, v))"
proof -
  have k: "key \<noteq> ''Verified''" using assms(1) not_date_key_Verified by auto
  have c: "processCell rt key v = Inr v"
    using assms k by (cases v) (simp_all add: processCell_def)
  have r: "processRow rt (pre @ (key, v) # post) = Inr r' \<Longrightarrow> r' ! length pre = (key, v)"
    for pre post r'
  proof (induction pre arbitrary: r')
    case Nil
    then show ?case using c by (auto split: sum.splits)
  next
    case (Cons e pre)
    obtain k0 v0 where e: "e = (k0, v0)" by (cases e)
    from Cons.prems obtain v1 r1 where
      "processRow rt (pre @ (key, v) # post) = Inr r1" "r' = (k0, v1) # r1"
      by (auto simp: e split: sum.splits)
    then show ?case using Cons.IH by simp
  qed
  show ?thesis using c r by blast
qed

lemma is_date_key_Date: "is_date_key ''Date''"
  by (simp add: is_date_key_def ci_match_def)

theorem processCell_date_other_unchanged_witness:
  "processCell basic_runtime ''Date'' (JDate (Some 1704412800000)) =
     Inr (JDate (Some 1704412800000))
 \<and> processCell basic_runtime ''Date'' (JBool True) = Inr (JBool True)
 \<and> (\<exists>r'. processRow basic_runtime
             [(''Name'', JStr ''A''), (''Date'', JDate (Some 1704412800000))] = Inr r'
        \<and> r' ! 1 = (''Date'', JDate (Some 1704412800000)))"
proof -
  have d: "processCell basic_runtime ''Date'' (JDate (Some 1704412800000)) =
             Inr (JDate (Some 1704412800000))
         \<and> (\<forall>pre post r'.
               processRow basic_runtime (pre @ (''Date'', JDate (Some 1704412800000)) # post) = Inr r'
               \<longrightarrow> r' ! length pre = (''Date'', JDate (Some 1704412800000)))"
    using processCell_date_other_unchanged
      [OF is_date_key_Date, of "JDate (Some 1704412800000)" basic_runtime]
    by simp
  have b: "processCell basic_runtime ''Date'' (JBool True) = Inr (JBool True)"
    using processCell_date_other_unchanged [OF is_date_key_Date, of "JBool True" basic_runtime]
    by simp
  have n: "processCell basic_runtime ''Name'' (JStr ''A'') = Inr (JStr ''A'')"
    by (simp add: processCell_def is_date_key_def ci_match_def)
  have r: "processRow basic_runtime
             [(''Name'', JStr ''A''), (''Date'', JDate (Some 1704412800000))] =
           Inr [(''Name'', JStr ''A''), (''Date'', JDate (Some 1704412800000))]"
    using d n by simp
  have "[(''Name'', JStr ''A''), (''Date'', JDate (Some 1704412800000))] ! 1 =
          (''Date'', JDate (Some 1704412800000))"
    by simp
  then show ?thesis using d b r by blast
qed

section \<open>Rounding to binary64\<close>

lemma round_half_even_int: "round_half_even (of_int j) = j"
  by (simp add: round_half_even_def)

lemma round_half_even_near: "\<bar>of_int (round_half_even y) - y\<bar> \<le> 1 / 2"
proof -
  have "of_int \<lfloor>y\<rfloor> \<le> y" "y < of_int \<lfloor>y\<rfloor> + 1" by linarith+
  then show ?thesis by (auto simp: round_half_even_def Let_def)
qed

lemma pow2_pos: "0 < pow2 q"
  by (simp add: pow2_def)

lemma pow2_nonneg: "0 \<le> q \<Longrightarrow> pow2 q = 2 ^ nat q"
  by (simp add: pow2_def)

lemma pow2_nonpos: "q \<le> 0 \<Longrightarrow> pow2 q = 1 / 2 ^ nat (- q)"
  by (cases "q = 0") (simp_all add: pow2_def)

lemma pow2_minus_52: "pow2 (e - 52) = pow2 e / 2 ^ 52"
proof -
  consider "52 \<le> e" | "0 \<le> e" "e < 52" | "e < 0" by linarith
  then show ?thesis
  proof cases
    case 1
    then have "nat e = nat (e - 52) + 52" by simp
    then have "(2::real) ^ nat e = 2 ^ nat (e - 52) * 2 ^ 52" by (simp only: power_add)
    then show ?thesis using 1 by (simp add: pow2_def)
  next
    case 2
    then have "52 = nat (- (e - 52)) + nat e" by simp
    then have "(2::real) ^ 52 = 2 ^ nat (- (e - 52)) * 2 ^ nat e" by (simp only: power_add)
    then show ?thesis using 2 by (simp add: pow2_def field_simps)
  next
    case 3
    then have "nat (- (e - 52)) = nat (- e) + 52" by simp
    then have "(2::real) ^ nat (- (e - 52)) = 2 ^ nat (- e) * 2 ^ 52" by (simp only: power_add)
    then show ?thesis using 3 by (simp add: pow2_def)
  qed
qed

lemma halvings_le: "x < 2 ^ Suc n \<Longrightarrow> halvings k x \<le> n"
proof (induction k arbitrary: x n)
  case 0
  then show ?case by simp
next
  case (Suc k)
  show ?case
  proof (cases "2 \<le> x")
    case True
    then obtain n' where n: "n = Suc n'" using Suc.prems by (cases n) auto
    have "x / 2 < 2 ^ Suc n'" using Suc.prems n by simp
    then have "halvings k (x / 2) \<le> n'" by (rule Suc.IH)
    then show ?thesis using True n by simp
  next
    case False
    then show ?thesis by simp
  qed
qed

lemma halvings_lower: "1 \<le> x \<Longrightarrow> 2 ^ halvings k x \<le> x"
proof (induction k arbitrary: x)
  case 0
  then show ?case by simp
next
  case (Suc k)
  show ?case
  proof (cases "2 \<le> x")
    case True
    then have "2 ^ halvings k (x / 2) \<le> x / 2" by (intro Suc.IH) simp
    then show ?thesis using True by simp
  next
    case False
    then show ?thesis using Suc.prems by simp
  qed
qed

lemma doublings_lower: "0 < x \<Longrightarrow> doublings k x < k \<Longrightarrow> 1 \<le> 2 ^ doublings k x * x"
proof (induction k arbitrary: x)
  case 0
  then show ?case by simp
next
  case (Suc k)
  show ?case
  proof (cases "x < 1")
    case True
    then have "doublings k (2 * x) < k" using Suc.prems by simp
    then have "1 \<le> 2 ^ doublings k (2 * x) * (2 * x)" using Suc.prems by (intro Suc.IH) simp
    then show ?thesis using True by (simp add: mult.assoc)
  next
    case False
    then show ?thesis by simp
  qed
qed

lemma exponent2_less: "x < 2 ^ Suc n \<Longrightarrow> exponent2 x \<le> int n"
  using halvings_le[of x n 1024] by (simp add: exponent2_def)

lemma exponent2_lower:
  assumes "0 < x" and "- 1074 \<le> exponent2 x - 52"
  shows "pow2 (exponent2 x) \<le> x"
proof (cases "1 \<le> x")
  case True
  then show ?thesis using halvings_lower[of x 1024] by (simp add: exponent2_def pow2_def)
next
  case False
  define d where "d = doublings 1075 x"
  have e: "exponent2 x = - int d" using False by (simp add: exponent2_def d_def)
  then have "d < 1075" using assms(2) by simp
  then have "1 \<le> 2 ^ d * x" unfolding d_def using assms(1) by (intro doublings_lower)
  then have "1 / 2 ^ d \<le> x" by (simp add: field_simps)
  then show ?thesis unfolding e using pow2_nonpos[of "- int d"] by simp
qed

text \<open>An integer below \<open>2 ^ 53\<close> is a binary64 value.\<close>

lemma binary64_int:
  assumes "\<bar>k\<bar> < 9007199254740992"
  shows "binary64 (of_int k) = Fin (of_int k)"
proof (cases "k = 0")
  case True
  then show ?thesis by (simp add: binary64_def)
next
  case False
  define x :: real where "x = of_int k"
  have x0: "x \<noteq> 0" using False by (simp add: x_def)
  have "\<bar>x\<bar> < 9007199254740992" using assms unfolding x_def by linarith
  then have lt: "\<bar>x\<bar> < 2 ^ Suc 52" by simp
  define e where "e = exponent2 \<bar>x\<bar>"
  have e52: "e \<le> 52" unfolding e_def using exponent2_less[OF lt] by simp
  define q where "q = max (e - 52) (- 1074)"
  have q0: "q \<le> 0" using e52 by (simp add: q_def)
  define n where "n = nat (- q)"
  have p: "pow2 q = 1 / 2 ^ n" unfolding n_def by (rule pow2_nonpos[OF q0])
  have "x / pow2 q = of_int (k * 2 ^ n)" by (simp add: p x_def)
  then have r: "round_half_even (x / pow2 q) = k * 2 ^ n"
    by (simp only: round_half_even_int)
  have "of_int (round_half_even (x / pow2 q)) * pow2 q = of_int (k * 2 ^ n) * (1 / 2 ^ n)"
    by (subst r, simp only: p)
  also have "\<dots> = x" by (simp add: x_def)
  finally have y: "of_int (round_half_even (x / pow2 q)) * pow2 q = x" .
  have "exponent2 \<bar>x\<bar> < 1024" using e52 by (simp add: e_def)
  then show ?thesis
    unfolding x_def[symmetric] binary64_def Let_def e_def[symmetric] q_def[symmetric] y
    using x0 by (simp add: e_def)
qed

text \<open>Rounding a number of moderate size moves it by at most the \<open>2 ^ 53\<close>th part of its
  magnitude, or by at most \<open>2 ^ -1075\<close>.\<close>

lemma binary64_near:
  assumes "\<bar>x\<bar> \<le> 1000000000000000000"
  shows "\<exists>z. binary64 x = Fin z \<and> \<bar>z - x\<bar> \<le> (\<bar>x\<bar> + 1) / 9007199254740992"
proof (cases "x = 0")
  case True
  then show ?thesis by (simp add: binary64_def)
next
  case False
  define e where "e = exponent2 \<bar>x\<bar>"
  define q where "q = max (e - 52) (- 1074)"
  define z where "z = of_int (round_half_even (x / pow2 q)) * pow2 q"
  have pq: "0 < pow2 q" by (rule pow2_pos)
  have "\<bar>of_int (round_half_even (x / pow2 q)) - x / pow2 q\<bar> \<le> 1 / 2"
    by (rule round_half_even_near)
  then have "\<bar>of_int (round_half_even (x / pow2 q)) - x / pow2 q\<bar> * pow2 q \<le> 1 / 2 * pow2 q"
    using pq by (intro mult_right_mono) simp_all
  moreover have "\<bar>of_int (round_half_even (x / pow2 q)) - x / pow2 q\<bar> * pow2 q = \<bar>z - x\<bar>"
  proof -
    have "\<bar>of_int (round_half_even (x / pow2 q)) - x / pow2 q\<bar> * pow2 q =
          \<bar>(of_int (round_half_even (x / pow2 q)) - x / pow2 q) * pow2 q\<bar>"
      using pq by (simp add: abs_mult)
    also have "(of_int (round_half_even (x / pow2 q)) - x / pow2 q) * pow2 q = z - x"
      using pq by (simp add: z_def field_simps)
    finally show ?thesis .
  qed
  ultimately have d: "\<bar>z - x\<bar> \<le> pow2 q / 2" by simp
  have b: "pow2 q / 2 \<le> (\<bar>x\<bar> + 1) / 9007199254740992"
  proof (cases "- 1074 \<le> e - 52")
    case True
    then have q: "q = e - 52" by (simp add: q_def)
    have "pow2 e \<le> \<bar>x\<bar>"
      unfolding e_def using False True by (intro exponent2_lower) (simp_all add: e_def)
    then have "pow2 e / 2 ^ 52 / 2 \<le> \<bar>x\<bar> / 2 ^ 52 / 2" by (simp add: divide_right_mono)
    then show ?thesis unfolding q pow2_minus_52 by simp
  next
    case False
    then have q: "q = - 1074" by (simp add: q_def)
    have "(2::real) ^ 53 \<le> 2 ^ 1075" by (rule power_increasing) simp_all
    then have "1 / (2::real) ^ 1075 \<le> 1 / 2 ^ 53" by (intro divide_left_mono) simp_all
    moreover have "pow2 q / 2 = 1 / 2 ^ 1075" unfolding q by (simp add: pow2_def)
    moreover have "1 / (2::real) ^ 53 \<le> (\<bar>x\<bar> + 1) / 9007199254740992" by simp
    ultimately show ?thesis by linarith
  qed
  have zb: "\<bar>z\<bar> < 2 ^ Suc 61"
  proof -
    have "\<bar>z\<bar> \<le> \<bar>x\<bar> + \<bar>z - x\<bar>" by linarith
    then have "\<bar>z\<bar> \<le> \<bar>x\<bar> + (\<bar>x\<bar> + 1) / 9007199254740992" using d b by linarith
    moreover have "(\<bar>x\<bar> + 1) / 9007199254740992 \<le> \<bar>x\<bar> + 1"
      by (simp add: field_simps)
    ultimately have "\<bar>z\<bar> \<le> 2 * \<bar>x\<bar> + 1" by linarith
    then have "\<bar>z\<bar> < 4611686018427387904" using assms by linarith
    then show ?thesis by simp
  qed
  have "exponent2 \<bar>z\<bar> \<le> 61" using exponent2_less[OF zb] by simp
  then have "\<not> 1024 \<le> exponent2 \<bar>z\<bar>" by simp
  then have "binary64 x = Fin z"
    unfolding binary64_def Let_def e_def[symmetric] q_def[symmetric] z_def[symmetric]
    using \<open>x \<noteq> 0\<close> by simp
  then show ?thesis using d b by auto
qed

text \<open>The value of \<open>binary64\<close> at a number from 1 on, from its exponent \<open>h\<close> and the
  integer \<open>m\<close> nearest to its significand.\<close>

lemma round_half_even_unique:
  assumes "\<bar>of_int m - y\<bar> < 1 / 2"
  shows "round_half_even y = m"
proof (cases "of_int m \<le> y")
  case True
  then have f: "\<lfloor>y\<rfloor> = m" using assms by (intro floor_unique) linarith+
  show ?thesis using True assms by (simp add: round_half_even_def Let_def f)
next
  case False
  then have f: "\<lfloor>y\<rfloor> = m - 1" using assms by (intro floor_unique) simp_all
  show ?thesis using False assms by (simp add: round_half_even_def Let_def f)
qed

lemma halvings_ge: "2 ^ n \<le> x \<Longrightarrow> n \<le> k \<Longrightarrow> n \<le> halvings k x"
proof (induction k arbitrary: x n)
  case 0
  then show ?case by simp
next
  case (Suc k)
  show ?case
  proof (cases n)
    case 0
    then show ?thesis by simp
  next
    case (Suc n')
    have x2: "2 \<le> x"
    proof -
      have "(2::real) ^ 1 \<le> 2 ^ n" unfolding Suc by (rule power_increasing) simp_all
      then show ?thesis using Suc.prems(1) by simp
    qed
    have "2 ^ n' \<le> x / 2" using Suc.prems(1) Suc by simp
    moreover have "n' \<le> k" using Suc.prems(2) Suc by simp
    ultimately have "n' \<le> halvings k (x / 2)" by (rule Suc.IH)
    then show ?thesis using x2 Suc by simp
  qed
qed

lemma binary64_rounded:
  assumes lo: "2 ^ h \<le> x" and hi: "x < 2 ^ Suc h" and h: "h \<le> 1000"
    and m: "\<bar>of_int m - x / pow2 (int h - 52)\<bar> < 1 / 2"
    and r: "r = of_int m * pow2 (int h - 52)"
  shows "binary64 x = Fin r"
proof -
  have one: "(1::real) \<le> 2 ^ h" by simp
  then have x1: "1 \<le> x" using lo by linarith
  then have x0: "x \<noteq> 0" "\<bar>x\<bar> = x" by simp_all
  have "halvings 1024 x = h"
    using halvings_le[OF hi, of 1024] halvings_ge[OF lo, of 1024] h by simp
  then have e: "exponent2 x = int h" using x1 by (simp add: exponent2_def)
  have q: "max (int h - 52) (- 1074) = int h - 52" by simp
  have rm: "round_half_even (x / pow2 (int h - 52)) = m" by (rule round_half_even_unique[OF m])
  have p: "pow2 (int h - 52) = 2 ^ h / 2 ^ 52" unfolding pow2_minus_52 by (simp add: pow2_def)
  have "real_of_int m < x / pow2 (int h - 52) + 1 / 2" using m by linarith
  also have "x / pow2 (int h - 52) < 2 ^ 53" using hi by (simp add: p field_simps)
  finally have "real_of_int m < 9007199254740993" by simp
  then have mu: "real_of_int m \<le> 2 ^ 53" by simp
  have "- 1 / 2 < real_of_int m" using m x1 pow2_pos[of "int h - 52"]
  proof -
    have "0 < x / pow2 (int h - 52)" using x1 pow2_pos[of "int h - 52"] by simp
    then show ?thesis using m by linarith
  qed
  then have "real_of_int (- 1) < real_of_int m" by simp
  then have "- 1 < m" by (simp only: of_int_less_iff)
  then have ml: "0 \<le> real_of_int m" by simp
  have "r \<le> 2 ^ 53 * (2 ^ h / 2 ^ 52)"
    unfolding r p using mu by (intro mult_right_mono) simp_all
  then have "r \<le> 2 ^ Suc h" by simp
  also have "(2::real) ^ Suc h < 2 ^ Suc 1023" using h by (intro power_strict_increasing) simp_all
  finally have ru: "r < 2 ^ Suc 1023" .
  have rl: "0 \<le> r" unfolding r p using ml by simp
  have "exponent2 \<bar>r\<bar> \<le> 1023" using exponent2_less[of r 1023] ru rl by simp
  then have "\<not> 1024 \<le> exponent2 \<bar>r\<bar>" by simp
  then show ?thesis
    unfolding binary64_def Let_def x0 e q rm r[symmetric] using x0 by simp
qed

section \<open>The normalizer: date cells\<close>

lemma digit_char_not_T: "digit_char k \<noteq> CHR ''T''"
proof -
  have "''0123456789'' ! (k mod 10) \<in> set ''0123456789''"
    by (rule nth_mem) simp
  then show ?thesis unfolding digit_char_def by auto
qed

lemma dec_digits_no_T: "CHR ''T'' \<notin> set (dec_digits w n)"
  by (induction w arbitrary: n) (auto simp: digit_char_not_T[symmetric])

lemma iso_date_no_T: "CHR ''T'' \<notin> set (iso_date d)"
  by (auto simp: iso_date_def iso_year_def dec_digits_no_T)

lemma before_first_T: "CHR ''T'' \<notin> set a \<Longrightarrow> before_first CHR ''T'' (a @ CHR ''T'' # b) = a"
  unfolding before_first_def by (subst takeWhile_append2) auto

text \<open>The date part of the ISO string of a valid date is the ISO form of its day.\<close>

lemma iso_day_string_Some: "iso_day_string (Some t) = Inr (JStr (iso_date (Day t)))"
  using before_first_T[OF iso_date_no_T]
  by (simp add: iso_day_string_def toISOString_def)

lemma TimeClip_int:
  assumes "\<bar>k\<bar> \<le> 8640000000000000"
  shows "TimeClip (Fin (of_int k)) = Some k"
proof -
  have "\<bar>real_of_int k\<bar> \<le> 8640000000000000" using assms by linarith
  then show ?thesis by (simp add: TimeClip_def)
qed

text \<open>The instant of a serial number, step by step: the difference, its product with
  86400, the product of that with 1000, each rounded, and \<open>Math.round\<close> of the last.\<close>

lemma serial_instant_steps:
  assumes "binary64 (x - 25569) = Fin a" and "binary64 (a * 86400) = Fin b"
    and "binary64 (b * 1000) = Fin c"
  shows "serial_instant (Fin x) = TimeClip (Fin (of_int \<lfloor>c + 1 / 2\<rfloor>))"
  using assms by (simp add: serial_instant_def num_sub_def)

text \<open>For a whole number every step is exact: 25569 days, 2209161600000 ms, lie
  between 1899-12-30 and 1970-01-01.\<close>

lemma serial_instant_int:
  assumes "\<bar>n - 25569\<bar> \<le> 100000000"
  shows "serial_instant (Fin (of_int n)) = Some ((n - 25569) * 86400000)"
proof -
  define k where "k = n - 25569"
  have kb: "\<bar>k\<bar> \<le> 100000000" using assms by (simp add: k_def)
  have 1: "real_of_int n - 25569 = of_int k" by (simp add: k_def)
  have 2: "real_of_int k * 86400 = of_int (k * 86400)" by simp
  have 3: "real_of_int (k * 86400) * 1000 = of_int (k * 86400000)" by simp
  have a: "binary64 (of_int n - 25569) = Fin (of_int k)"
    unfolding 1 using kb by (intro binary64_int) linarith
  have b: "binary64 (of_int k * 86400) = Fin (of_int (k * 86400))"
    unfolding 2 using kb by (intro binary64_int) linarith
  have c: "binary64 (of_int (k * 86400) * 1000) = Fin (of_int (k * 86400000))"
    unfolding 3 using kb by (intro binary64_int) linarith
  have f: "\<lfloor>real_of_int (k * 86400000) + 1 / 2\<rfloor> = k * 86400000"
    by linarith
  have "\<bar>k * 86400000\<bar> \<le> 8640000000000000" using kb by linarith
  then have "TimeClip (Fin (of_int (k * 86400000))) = Some (k * 86400000)"
    by (rule TimeClip_int)
  then show ?thesis
    unfolding serial_instant_steps[OF a b c] f unfolding k_def .
qed

lemma Day_days: "Day (k * 86400000) = k"
  by (simp add: Day_def msPerDay_def)

text \<open>For a number within 3000000 days of 25569 the three roundings move the instant
  by less than half a millisecond together.\<close>

lemma serial_instant_near:
  assumes "\<bar>x - 25569\<bar> \<le> 3000000"
  shows "\<exists>t. serial_instant (Fin x) = Some t
           \<and> \<bar>real_of_int t - (x - 25569) * 86400000\<bar> < 1"
proof -
  define a0 where "a0 = x - 25569"
  have h: "\<bar>a0\<bar> \<le> 3000000" using assms by (simp add: a0_def)
  then have "\<bar>a0\<bar> \<le> 1000000000000000000" by linarith
  from binary64_near[OF this] obtain a where
    a: "binary64 a0 = Fin a" and ea: "\<bar>a - a0\<bar> \<le> (\<bar>a0\<bar> + 1) / 9007199254740992"
    by blast
  have "(\<bar>a0\<bar> + 1) / 9007199254740992 \<le> 3000001 / 9007199254740992"
    using h by (intro divide_right_mono) simp_all
  then have ea': "\<bar>a - a0\<bar> \<le> 3000001 / 9007199254740992" using ea by linarith
  have ba: "\<bar>a\<bar> \<le> 3000001" using ea' h by linarith
  define b0 where "b0 = a * 86400"
  have hb: "\<bar>b0\<bar> \<le> 259200086400" using ba by (simp add: b0_def abs_mult)
  then have "\<bar>b0\<bar> \<le> 1000000000000000000" by linarith
  from binary64_near[OF this] obtain b where
    b: "binary64 b0 = Fin b" and eb: "\<bar>b - b0\<bar> \<le> (\<bar>b0\<bar> + 1) / 9007199254740992"
    by blast
  have "(\<bar>b0\<bar> + 1) / 9007199254740992 \<le> 259200086401 / 9007199254740992"
    using hb by (intro divide_right_mono) simp_all
  then have eb': "\<bar>b - b0\<bar> \<le> 259200086401 / 9007199254740992" using eb by linarith
  have bb: "\<bar>b\<bar> \<le> 259200086401" using eb' hb by linarith
  define c0 where "c0 = b * 1000"
  have hc: "\<bar>c0\<bar> \<le> 259200086401000" using bb by (simp add: c0_def abs_mult)
  then have "\<bar>c0\<bar> \<le> 1000000000000000000" by linarith
  from binary64_near[OF this] obtain c where
    c: "binary64 c0 = Fin c" and ec: "\<bar>c - c0\<bar> \<le> (\<bar>c0\<bar> + 1) / 9007199254740992"
    by blast
  have "(\<bar>c0\<bar> + 1) / 9007199254740992 \<le> 259200086401001 / 9007199254740992"
    using hc by (intro divide_right_mono) simp_all
  then have ec': "\<bar>c - c0\<bar> \<le> 259200086401001 / 9007199254740992" using ec by linarith
  define t where "t = \<lfloor>c + 1 / 2\<rfloor>"
  have tc: "\<bar>real_of_int t - c\<bar> \<le> 1 / 2" unfolding t_def by linarith
  have e: "c - a0 * 86400000 = (c - c0) + 1000 * (b - b0) + 86400000 * (a - a0)"
    by (simp add: c0_def b0_def)
  have "\<bar>c - a0 * 86400000\<bar> \<le> \<bar>c - c0\<bar> + \<bar>1000 * (b - b0)\<bar> + \<bar>86400000 * (a - a0)\<bar>"
    unfolding e by (rule order_trans[OF abs_triangle_ineq add_right_mono[OF abs_triangle_ineq]])
  moreover have "\<bar>1000 * (b - b0)\<bar> = 1000 * \<bar>b - b0\<bar>" by (subst abs_mult) simp
  moreover have "\<bar>86400000 * (a - a0)\<bar> = 86400000 * \<bar>a - a0\<bar>" by (subst abs_mult) simp
  ultimately have "\<bar>c - a0 * 86400000\<bar> \<le> \<bar>c - c0\<bar> + 1000 * \<bar>b - b0\<bar> + 86400000 * \<bar>a - a0\<bar>"
    by (simp only:)
  moreover have "p < 1 / 2"
    if "p \<le> u + 1000 * v + 86400000 * w" "w \<le> 3000001 / 9007199254740992"
      "v \<le> 259200086401 / 9007199254740992" "u \<le> 259200086401001 / 9007199254740992"
    for p u v w :: real
    using that by linarith
  ultimately have near: "\<bar>c - a0 * 86400000\<bar> < 1 / 2"
    using ea' eb' ec' by blast
  have "\<bar>a0 * 86400000\<bar> \<le> 259200000000000" using h by (simp add: abs_mult)
  moreover have "real_of_int t = (real_of_int t - c) + (c - a0 * 86400000) + a0 * 86400000"
    by simp
  then have "\<bar>real_of_int t\<bar> \<le> \<bar>real_of_int t - c\<bar> + \<bar>c - a0 * 86400000\<bar> + \<bar>a0 * 86400000\<bar>"
    using abs_triangle_ineq[of "(real_of_int t - c) + (c - a0 * 86400000)" "a0 * 86400000"]
      abs_triangle_ineq[of "real_of_int t - c" "c - a0 * 86400000"]
    by (simp only:)
  moreover have "p \<le> 8640000000000000"
    if "p \<le> u + v + w" "u \<le> 1 / 2" "v < 1 / 2" "w \<le> 259200000000000" for p u v w :: real
    using that by linarith
  ultimately have "\<bar>real_of_int t\<bar> \<le> 8640000000000000" using tc near by blast
  then have tb: "\<bar>t\<bar> \<le> 8640000000000000" by linarith
  have "serial_instant (Fin x) = Some t"
    unfolding serial_instant_steps[OF a[unfolded a0_def] b[unfolded b0_def] c[unfolded c0_def]]
      t_def[symmetric]
    by (rule TimeClip_int[OF tb])
  moreover have "\<bar>real_of_int t - (x - 25569) * 86400000\<bar> < 1"
  proof -
    have "real_of_int t - a0 * 86400000 = (real_of_int t - c) + (c - a0 * 86400000)" by simp
    then have "\<bar>real_of_int t - a0 * 86400000\<bar> \<le> \<bar>real_of_int t - c\<bar> + \<bar>c - a0 * 86400000\<bar>"
      by (simp only: abs_triangle_ineq)
    moreover have "p < 1" if "p \<le> u + v" "u \<le> 1 / 2" "v < 1 / 2" for p u v :: real
      using that by linarith
    ultimately have "\<bar>real_of_int t - a0 * 86400000\<bar> < 1" using tc near by blast
    then show ?thesis unfolding a0_def .
  qed
  ultimately show ?thesis by blast
qed

text \<open>
  Claim C4 says that a numeric input \<open>v\<close> becomes the date \<open>v\<close> days after 1899-12-30.
  The code tests the cell for truth first: the number 0, which is the day 1899-12-30
  itself, becomes null.
\<close>

theorem processCell_date_zero:
  "processCell basic_runtime ''Date'' (JNum (Fin 0)) = Inr JNull
 \<and> processCell basic_runtime ''Date'' (JNum (Fin 0)) \<noteq> Inr (JStr ''1899-12-30'')"
  by code_simp

text \<open>
  Claim C4, amended: for a field whose name contains \<open>date\<close>, \<open>dt\<close> or \<open>time\<close>
  (case-insensitive), a truthy number \<open>v\<close> becomes the ISO form of the day that holds
  the instant the code computes from it, \<open>Math.round((v - 25569) * 86400 * 1000)\<close>
  milliseconds after 1970-01-01 with each operation rounded to binary64, when that
  instant is a time value; the time of day is dropped. For a number within 3000000 days
  of 25569 that instant is less than a millisecond away from \<open>v\<close> days after 1899-12-30;
  for a whole number \<open>n\<close> it is \<open>n\<close> days after 1899-12-30 (day 0 is 1899-12-30) and the
  result is that day. The ISO form of a day is \<open>YYYY-MM-DD\<close> for the years 0 to 9999. A
  non-empty string that the Date constructor can read becomes the ISO form of its day; a
  string it cannot read becomes null; the number 0, \<open>NaN\<close>, the empty string, null, an
  absent value and false become null.
\<close>

theorem processCell_date:
  assumes "is_date_key key"
  shows "(truthy (JNum num) \<and> serial_instant num = Some t \<longrightarrow>
            processCell rt key (JNum num) = Inr (JStr (iso_date (Day t))))
       \<and> (x \<noteq> 0 \<and> \<bar>x - 25569\<bar> \<le> 3000000 \<longrightarrow>
            (case serial_instant (Fin x) of
               None \<Rightarrow> False
             | Some tx \<Rightarrow>
                 \<bar>real_of_int tx - (x - 25569) * 86400000\<bar> < 1 \<and>
                 processCell rt key (JNum (Fin x)) = Inr (JStr (iso_date (Day tx)))))
       \<and> (n \<noteq> 0 \<and> \<bar>n - 25569\<bar> \<le> 100000000 \<longrightarrow>
            serial_instant (Fin (of_int n)) = Some ((n - 25569) * 86400000) \<and>
            processCell rt key (JNum (Fin (of_int n))) = Inr (JStr (iso_date (n - 25569))))
       \<and> iso_date (0 - 25569) = ''1899-12-30''
       \<and> (0 \<le> YearFromDay d \<and> YearFromDay d \<le> 9999 \<longrightarrow>
            iso_date d =
              dec_digits 4 (nat (YearFromDay d)) @ ''-'' @
              dec_digits 2 (nat (MonthFromDay d + 1)) @ ''-'' @ dec_digits 2 (nat (DateFromDay d)))
       \<and> (s \<noteq> [] \<and> new_Date rt (JStr s) = Some ts \<longrightarrow>
            processCell rt key (JStr s) = Inr (JStr (iso_date (Day ts))))
       \<and> (new_Date rt (JStr s) = None \<longrightarrow> processCell rt key (JStr s) = Inr JNull)
       \<and> (\<not> truthy v \<longrightarrow> processCell rt key v = Inr JNull)"
proof -
  have k: "key \<noteq> ''Verified''" using assms not_date_key_Verified by auto
  have num: "processCell rt key (JNum m) = Inr (JStr (iso_date (Day u)))"
    if "truthy (JNum m)" "serial_instant m = Some u" for m u
    using that k assms by (simp add: processCell_def iso_day_string_Some)
  have near: "case serial_instant (Fin x) of
                None \<Rightarrow> False
              | Some tx \<Rightarrow>
                  \<bar>real_of_int tx - (x - 25569) * 86400000\<bar> < 1 \<and>
                  processCell rt key (JNum (Fin x)) = Inr (JStr (iso_date (Day tx)))"
    if "x \<noteq> 0" "\<bar>x - 25569\<bar> \<le> 3000000"
  proof -
    from serial_instant_near[OF that(2)] obtain tx where
      tx: "serial_instant (Fin x) = Some tx"
      and e: "\<bar>real_of_int tx - (x - 25569) * 86400000\<bar> < 1"
      by blast
    have "processCell rt key (JNum (Fin x)) = Inr (JStr (iso_date (Day tx)))"
      using num[of "Fin x" tx] that(1) tx by simp
    then show ?thesis using tx e by simp
  qed
  have int: "serial_instant (Fin (of_int n)) = Some ((n - 25569) * 86400000) \<and>
             processCell rt key (JNum (Fin (of_int n))) = Inr (JStr (iso_date (n - 25569)))"
    if "n \<noteq> 0" "\<bar>n - 25569\<bar> \<le> 100000000"
  proof -
    have i: "serial_instant (Fin (of_int n)) = Some ((n - 25569) * 86400000)"
      by (rule serial_instant_int[OF that(2)])
    have "truthy (JNum (Fin (of_int n)))" using that(1) by simp
    from num[OF this i] show ?thesis using i unfolding Day_days by (intro conjI)
  qed
  have d0: "iso_date (0 - 25569) = ''1899-12-30''" by code_simp
  have shape: "iso_date d =
              dec_digits 4 (nat (YearFromDay d)) @ ''-'' @
              dec_digits 2 (nat (MonthFromDay d + 1)) @ ''-'' @ dec_digits 2 (nat (DateFromDay d))"
    if "0 \<le> YearFromDay d" "YearFromDay d \<le> 9999"
    using that by (simp add: iso_date_def iso_year_def)
  have str: "processCell rt key (JStr s) = Inr (JStr (iso_date (Day ts)))"
    if "s \<noteq> []" "new_Date rt (JStr s) = Some ts"
    using that k assms by (simp add: processCell_def iso_day_string_Some del: new_Date.simps)
  have none: "processCell rt key (JStr s) = Inr JNull" if "new_Date rt (JStr s) = None"
    using that k assms by (simp add: processCell_def del: new_Date.simps)
  have fal: "processCell rt key v = Inr JNull" if "\<not> truthy v"
    using that k assms by (cases v) (auto simp: processCell_def)
  show ?thesis using num near int d0 shape str none fal by blast
qed

text \<open>The number 45000.75, and the binary64 value next to 51020.99999999421: half a
  millisecond before the end of 7 September 2039, the rounded product is the half that
  \<open>Math.round\<close> rounds up to the next day.\<close>

lemma serial_examples:
  "serial_instant (Fin 45000.75) = Some 1678903200000
 \<and> serial_instant (Fin (1753068211273529 / 34359738368)) = Some 2199052800000"
proof -
  have a: "binary64 (45000.75 - 25569) = Fin (77727 / 4)"
    by (rule binary64_rounded[where h = 14 and m = 5341358768259072]) (simp_all add: pow2_def)
  have b: "binary64 (77727 / 4 * 86400) = Fin 1678903200"
    using binary64_int[of 1678903200] by simp
  have c: "binary64 (1678903200 * 1000) = Fin 1678903200000"
    using binary64_int[of 1678903200000] by simp
  have 1: "serial_instant (Fin 45000.75) = Some 1678903200000"
    unfolding serial_instant_steps[OF a b c]
    using TimeClip_int[of 1678903200000] by simp
  have a': "binary64 (1753068211273529 / 34359738368 - 25569) =
              Fin (874524060942137 / 34359738368)"
    by (rule binary64_rounded[where h = 14 and m = 6996192487537096]) (simp_all add: pow2_def)
  have b': "binary64 (874524060942137 / 34359738368 * 86400) =
              Fin (4611747977624551 / 2097152)"
    by (rule binary64_rounded[where h = 31 and m = 4611747977624551]) (simp_all add: pow2_def)
  have c': "binary64 (4611747977624551 / 2097152 * 1000) = Fin (4398105599999 / 2)"
    by (rule binary64_rounded[where h = 41 and m = 4503660134398976]) (simp_all add: pow2_def)
  have 2: "serial_instant (Fin (1753068211273529 / 34359738368)) = Some 2199052800000"
    unfolding serial_instant_steps[OF a' b' c']
    using TimeClip_int[of 2199052800000] by simp
  show ?thesis using 1 2 by simp
qed

lemma date_examples:
  "iso_date (Day 1678903200000) = ''2023-03-15''
 \<and> iso_date (Day 2199052800000) = ''2039-09-08''
 \<and> iso_date (45000 - 25569) = ''2023-03-15''
 \<and> new_Date basic_runtime (JStr ''2024-01-05'') = Some 1704412800000
 \<and> iso_date (Day 1704412800000) = ''2024-01-05''
 \<and> new_Date basic_runtime (JStr ''bad'') = None
 \<and> 0 \<le> YearFromDay 19431 \<and> YearFromDay 19431 \<le> 9999"
  by code_simp

theorem processCell_date_witness:
  "processCell basic_runtime ''Date'' (JNum (Fin 45000.75)) = Inr (JStr ''2023-03-15'')
 \<and> processCell basic_runtime ''Date'' (JNum (Fin (1753068211273529 / 34359738368))) =
     Inr (JStr ''2039-09-08'')
 \<and> \<bar>real_of_int 1678903200000 - (45000.75 - 25569) * 86400000\<bar> < 1
 \<and> serial_instant (Fin (of_int 45000)) = Some ((45000 - 25569) * 86400000)
 \<and> processCell basic_runtime ''Date'' (JNum (Fin (of_int 45000))) = Inr (JStr ''2023-03-15'')
 \<and> iso_date 19431 =
     dec_digits 4 (nat (YearFromDay 19431)) @ ''-'' @
     dec_digits 2 (nat (MonthFromDay 19431 + 1)) @ ''-'' @ dec_digits 2 (nat (DateFromDay 19431))
 \<and> processCell basic_runtime ''Date'' (JStr ''2024-01-05'') = Inr (JStr ''2024-01-05'')
 \<and> processCell basic_runtime ''Date'' (JStr ''bad'') = Inr JNull
 \<and> processCell basic_runtime ''Date'' JNull = Inr JNull"
proof -
  note a = processCell_date
             [OF is_date_key_Date, where num = "Fin 45000.75" and t = 1678903200000
                and x = "45000.75" and n = 45000 and d = 19431
                and s = "''2024-01-05''" and ts = 1704412800000 and v = JNull
                and rt = basic_runtime]
  note b = processCell_date
             [OF is_date_key_Date, where num = "Fin (1753068211273529 / 34359738368)"
                and t = 2199052800000 and s = "''bad''" and rt = basic_runtime]
  have 1: "processCell basic_runtime ''Date'' (JNum (Fin 45000.75)) = Inr (JStr ''2023-03-15'')"
    using a serial_examples date_examples by simp
  have 2: "processCell basic_runtime ''Date'' (JNum (Fin (1753068211273529 / 34359738368))) =
             Inr (JStr ''2039-09-08'')"
    using b serial_examples date_examples by simp
  have 3: "\<bar>real_of_int 1678903200000 - (45000.75 - 25569) * 86400000\<bar> < 1"
    using a serial_examples by simp
  have 4: "serial_instant (Fin (of_int 45000)) = Some ((45000 - 25569) * 86400000)
         \<and> processCell basic_runtime ''Date'' (JNum (Fin (of_int 45000))) =
             Inr (JStr ''2023-03-15'')"
    using a date_examples by simp
  have 5: "iso_date 19431 =
     dec_digits 4 (nat (YearFromDay 19431)) @ ''-'' @
     dec_digits 2 (nat (MonthFromDay 19431 + 1)) @ ''-'' @ dec_digits 2 (nat (DateFromDay 19431))"
    using a date_examples by blast
  have 6: "processCell basic_runtime ''Date'' (JStr ''2024-01-05'') = Inr (JStr ''2024-01-05'')"
    using a date_examples by simp
  have 7: "processCell basic_runtime ''Date'' (JStr ''bad'') = Inr JNull"
    using b date_examples by blast
  have 8: "processCell basic_runtime ''Date'' JNull = Inr JNull"
    using a by simp
  show ?thesis using 1 2 3 4 5 6 7 8 by blast
qed

section \<open>The row validator of the client: what one row adds\<close>

lemmas block_defs = validate_Name_def validate_Amount_def validate_Date_def validate_Verified_def
  push_error_def push_warning_def cell_finding_def Let_def

lemma validate_Name_acc:
  "validate_Name n r acc =
     (fst acc @ fst (validate_Name n r ([], [])), snd acc @ snd (validate_Name n r ([], [])))"
  by (simp add: block_defs split: jsval.splits)

lemma validate_Amount_acc:
  "validate_Amount rt n r acc =
     (fst acc @ fst (validate_Amount rt n r ([], [])),
      snd acc @ snd (validate_Amount rt n r ([], [])))"
  by (simp add: block_defs)

lemma validate_Date_acc:
  "validate_Date rt now n r acc =
     (fst acc @ fst (validate_Date rt now n r ([], [])),
      snd acc @ snd (validate_Date rt now n r ([], [])))"
  by (simp add: block_defs)

lemma validate_Verified_acc:
  "validate_Verified n r acc =
     (fst acc @ fst (validate_Verified n r ([], [])),
      snd acc @ snd (validate_Verified n r ([], [])))"
  by (simp add: block_defs split: jsval.splits)

lemma validate_Name_errors:
  "f \<in> set (fst (validate_Name n r ([], []))) \<Longrightarrow> severity f = Some SevError \<and> row f = n"
  by (auto simp: block_defs split: jsval.splits if_splits)

lemma validate_Name_warnings:
  "f \<in> set (snd (validate_Name n r ([], []))) \<Longrightarrow>
     severity f = Some SevWarning \<and> row f = n \<and> \<not> is_future_warning f"
  by (auto simp: block_defs is_future_warning_def split: jsval.splits if_splits)

lemma validate_Amount_errors:
  "f \<in> set (fst (validate_Amount rt n r ([], []))) \<Longrightarrow> severity f = Some SevError \<and> row f = n"
  by (auto simp: block_defs split: if_splits)

lemma validate_Amount_warnings:
  "f \<in> set (snd (validate_Amount rt n r ([], []))) \<Longrightarrow>
     severity f = Some SevWarning \<and> row f = n \<and> \<not> is_future_warning f"
  by (auto simp: block_defs is_future_warning_def split: if_splits)

lemma validate_Date_errors:
  "f \<in> set (fst (validate_Date rt now n r ([], []))) \<Longrightarrow> severity f = Some SevError \<and> row f = n"
  by (auto simp: block_defs split: if_splits)

lemma validate_Date_warnings:
  "f \<in> set (snd (validate_Date rt now n r ([], []))) \<Longrightarrow> severity f = Some SevWarning \<and> row f = n"
  by (auto simp: block_defs split: if_splits)

lemma validate_Verified_errors:
  "f \<in> set (fst (validate_Verified n r ([], []))) \<Longrightarrow> severity f = Some SevError \<and> row f = n"
  by (auto simp: block_defs split: jsval.splits if_splits)

lemma validate_Verified_warnings: "snd (validate_Verified n r ([], [])) = []"
  by (auto simp: block_defs split: jsval.splits if_splits)

text \<open>The clock decides nothing but the warning for a date in the future.\<close>

lemma validate_Date_clock:
  "fst (validate_Date rt now n r ([], [])) = fst (validate_Date rt now' n r ([], []))
 \<and> filter (\<lambda>f. \<not> is_future_warning f) (snd (validate_Date rt now n r ([], []))) = []"
  by (auto simp: block_defs is_future_warning_def)

lemma validate_row_fst:
  "fst (validate_row rt now i r acc) =
     fst acc @ fst (validate_Name (i + 1) r ([], [])) @
     fst (validate_Amount rt (i + 1) r ([], [])) @
     fst (validate_Date rt now (i + 1) r ([], [])) @ fst (validate_Verified (i + 1) r ([], []))"
  unfolding validate_row_def Let_def
  by (subst validate_Verified_acc, subst validate_Date_acc, subst validate_Amount_acc,
      subst validate_Name_acc) simp

lemma validate_row_snd:
  "snd (validate_row rt now i r acc) =
     snd acc @ snd (validate_Name (i + 1) r ([], [])) @
     snd (validate_Amount rt (i + 1) r ([], [])) @ snd (validate_Date rt now (i + 1) r ([], []))"
  unfolding validate_row_def Let_def
  by (subst validate_Verified_acc, subst validate_Date_acc, subst validate_Amount_acc,
      subst validate_Name_acc) (simp add: validate_Verified_warnings)

lemma validate_row_acc:
  "validate_row rt now i r acc =
     (fst acc @ fst (validate_row rt now i r ([], [])),
      snd acc @ snd (validate_row rt now i r ([], [])))"
  by (simp add: prod_eq_iff validate_row_fst validate_row_snd)

lemma validate_row_errors:
  "f \<in> set (fst (validate_row rt now i r ([], []))) \<Longrightarrow>
     severity f = Some SevError \<and> row f = i + 1"
  using validate_Name_errors validate_Amount_errors validate_Date_errors validate_Verified_errors
  by (fastforce simp: validate_row_fst)

lemma validate_row_warnings:
  "f \<in> set (snd (validate_row rt now i r ([], []))) \<Longrightarrow>
     severity f = Some SevWarning \<and> row f = i + 1"
  using validate_Name_warnings validate_Amount_warnings validate_Date_warnings
  by (fastforce simp: validate_row_snd)

lemma validate_row_clock:
  "fst (validate_row rt now i r ([], [])) = fst (validate_row rt now' i r ([], []))
 \<and> filter (\<lambda>f. \<not> is_future_warning f) (snd (validate_row rt now i r ([], []))) =
   filter (\<lambda>f. \<not> is_future_warning f) (snd (validate_row rt now' i r ([], [])))"
  using validate_Date_clock[of rt now "i + 1" r now'] validate_Date_clock[of rt now' "i + 1" r now]
  by (simp add: validate_row_fst validate_row_snd)

text \<open>The loop appends, row by row, what each row adds.\<close>

lemma forEach_rows_enumerate:
  "forEach_rows rt clock index rows acc =
     (fst acc @ concat (map (\<lambda>(i, r). fst (validate_row rt (clock i) i r ([], [])))
                          (enumerate index rows)),
      snd acc @ concat (map (\<lambda>(i, r). snd (validate_row rt (clock i) i r ([], [])))
                          (enumerate index rows)))"
proof (induction rows arbitrary: index acc)
  case Nil
  then show ?case by simp
next
  case (Cons r rows)
  show ?case
    by (simp add: Cons.IH) (subst validate_row_acc, simp)+
qed

lemma validateExcelData_rows:
  assumes "\<forall>col\<in>set requiredColumns. has_key firstRow col"
  shows "validateExcelData rt clock (Rows (firstRow # rest)) =
           concat (map (\<lambda>(i, r). fst (validate_row rt (clock i) i r ([], [])))
                     (enumerate 0 (firstRow # rest))) @
           concat (map (\<lambda>(i, r). snd (validate_row rt (clock i) i r ([], [])))
                     (enumerate 0 (firstRow # rest)))"
proof -
  have "filter (\<lambda>col. \<not> has_key firstRow col) requiredColumns = []"
    using assms by (simp add: filter_empty_conv)
  then show ?thesis
    by (simp add: validateExcelData_def Let_def forEach_rows_enumerate del: forEach_rows.simps)
qed

lemma sorted_all_equal: "\<forall>x\<in>set xs. x = (c::nat) \<Longrightarrow> sorted xs"
  by (induction xs) auto

lemma sorted_concat_enumerate:
  assumes "\<And>i r f. f \<in> set (F (i, r)) \<Longrightarrow> row f = i + 1"
  shows "sorted (map row (concat (map F (enumerate index rows))))
       \<and> (\<forall>f\<in>set (concat (map F (enumerate index rows))). index + 1 \<le> row f)"
proof (induction rows arbitrary: index)
  case Nil
  then show ?case by simp
next
  case (Cons r rows)
  have here: "\<forall>x\<in>set (map row (F (index, r))). x = index + 1"
    using assms by auto
  have s1: "sorted (map row (F (index, r)))"
    using sorted_all_equal[OF here] .
  have s2: "sorted (map row (concat (map F (enumerate (Suc index) rows))))"
    and ge: "\<forall>f\<in>set (concat (map F (enumerate (Suc index) rows))). Suc index + 1 \<le> row f"
    using Cons.IH[of "Suc index"] by auto
  have "sorted (map row (F (index, r)) @ map row (concat (map F (enumerate (Suc index) rows))))"
    unfolding sorted_append using s1 s2 here ge by fastforce
  moreover have
    "\<forall>f\<in>set (F (index, r) @ concat (map F (enumerate (Suc index) rows))). index + 1 \<le> row f"
    using here ge by fastforce
  ultimately show ?case by simp
qed

lemma required_columns_row_large: "\<forall>col\<in>set requiredColumns. has_key row_large col"
  by (simp add: requiredColumns_def has_key_def row_large_def)

section \<open>The row validator of the client: errors before warnings\<close>

text \<open>
  Claim C2: when the first row has the four required columns, so that the rows are
  checked one by one, the result of \<open>validateExcelData\<close> is a list of findings of
  severity error followed by a list of findings of severity warning, and in each of the
  two the row numbers never decrease: every error stands before every warning, and
  each group is in row order.
\<close>

theorem validateExcelData_errors_before_warnings:
  assumes "\<forall>col\<in>set requiredColumns. has_key firstRow col"
  shows "\<exists>es ws.
           validateExcelData rt clock (Rows (firstRow # rest)) = es @ ws
         \<and> (\<forall>f\<in>set es. severity f = Some SevError)
         \<and> (\<forall>f\<in>set ws. severity f = Some SevWarning)
         \<and> sorted (map row es) \<and> sorted (map row ws)"
proof -
  let ?E = "\<lambda>(i, r). fst (validate_row rt (clock i) i r ([], []))"
  let ?W = "\<lambda>(i, r). snd (validate_row rt (clock i) i r ([], []))"
  let ?es = "concat (map ?E (enumerate 0 (firstRow # rest)))"
  let ?ws = "concat (map ?W (enumerate 0 (firstRow # rest)))"
  have out: "validateExcelData rt clock (Rows (firstRow # rest)) = ?es @ ?ws"
    using validateExcelData_rows[OF assms] .
  have e: "\<forall>f\<in>set ?es. severity f = Some SevError"
    using validate_row_errors by fastforce
  have w: "\<forall>f\<in>set ?ws. severity f = Some SevWarning"
    using validate_row_warnings by fastforce
  have se: "sorted (map row ?es)"
    using sorted_concat_enumerate[of ?E 0 "firstRow # rest"] validate_row_errors by fastforce
  have sw: "sorted (map row ?ws)"
    using sorted_concat_enumerate[of ?W 0 "firstRow # rest"] validate_row_warnings by fastforce
  show ?thesis using out e w se sw by blast
qed

lemma three_rows_findings:
  "validateExcelData basic_runtime (\<lambda>i. start_Feb_2024) (Rows [row_large, row_bad, row_large]) =
     [cell_finding 2 ''Name'' ''Name is required'' SevError,
      cell_finding 2 ''Amount'' ''Amount must be positive'' SevError,
      cell_finding 2 ''Date'' ''Invalid date format'' SevError,
      cell_finding 2 ''Verified'' ''Verified must be Yes/No or True/False'' SevError,
      cell_finding 1 ''Amount'' ''Amount is unusually large (>1,000,000)'' SevWarning,
      cell_finding 3 ''Amount'' ''Amount is unusually large (>1,000,000)'' SevWarning]"
  by code_simp

theorem validateExcelData_errors_before_warnings_witness:
  "\<exists>es ws.
     validateExcelData basic_runtime (\<lambda>i. start_Feb_2024) (Rows [row_large, row_bad, row_large])
       = es @ ws
   \<and> es @ ws =
       [cell_finding 2 ''Name'' ''Name is required'' SevError,
        cell_finding 2 ''Amount'' ''Amount must be positive'' SevError,
        cell_finding 2 ''Date'' ''Invalid date format'' SevError,
        cell_finding 2 ''Verified'' ''Verified must be Yes/No or True/False'' SevError,
        cell_finding 1 ''Amount'' ''Amount is unusually large (>1,000,000)'' SevWarning,
        cell_finding 3 ''Amount'' ''Amount is unusually large (>1,000,000)'' SevWarning]
   \<and> list_all (\<lambda>f. severity f = Some SevError) es
   \<and> list_all (\<lambda>f. severity f = Some SevWarning) ws
   \<and> sorted (map row es) \<and> sorted (map row ws)"
proof -
  from validateExcelData_errors_before_warnings
         [OF required_columns_row_large, of basic_runtime "\<lambda>i. start_Feb_2024"
            "[row_bad, row_large]"]
  obtain es ws where
    o: "validateExcelData basic_runtime (\<lambda>i. start_Feb_2024)
          (Rows [row_large, row_bad, row_large]) = es @ ws"
    and e: "\<forall>f\<in>set es. severity f = Some SevError"
    and w: "\<forall>f\<in>set ws. severity f = Some SevWarning"
    and s: "sorted (map row es)" "sorted (map row ws)"
    by blast
  have v: "es @ ws =
       [cell_finding 2 ''Name'' ''Name is required'' SevError,
        cell_finding 2 ''Amount'' ''Amount must be positive'' SevError,
        cell_finding 2 ''Date'' ''Invalid date format'' SevError,
        cell_finding 2 ''Verified'' ''Verified must be Yes/No or True/False'' SevError,
        cell_finding 1 ''Amount'' ''Amount is unusually large (>1,000,000)'' SevWarning,
        cell_finding 3 ''Amount'' ''Amount is unusually large (>1,000,000)'' SevWarning]"
    using o three_rows_findings by simp
  have "list_all (\<lambda>f. severity f = Some SevError) es"
    and "list_all (\<lambda>f. severity f = Some SevWarning) ws"
    using e w by (simp_all add: list_all_iff)
  then show ?thesis using o v s by blast
qed

section \<open>The row validator of the client: the clock\<close>

text \<open>
  Claim C6 says that two runs of the row validator on the same rows give the same
  findings. The validator reads the clock for each dated row: for a row dated
  5 January 2024 a run at noon of 4 January returns the warning for a date in the
  future, a run on 1 February returns nothing.
\<close>

theorem validateExcelData_two_runs_differ:
  "validateExcelData basic_runtime (\<lambda>i. noon_4_Jan_2024) (Rows [row_ok]) =
     [cell_finding 1 ''Date'' ''Date is in the future'' SevWarning]
 \<and> validateExcelData basic_runtime (\<lambda>i. start_Feb_2024) (Rows [row_ok]) = []
 \<and> validateExcelData basic_runtime (\<lambda>i. noon_4_Jan_2024) (Rows [row_ok]) \<noteq>
   validateExcelData basic_runtime (\<lambda>i. start_Feb_2024) (Rows [row_ok])"
  by code_simp

lemma forEach_rows_clock:
  "fst (forEach_rows rt clock index rows acc) = fst (forEach_rows rt clock' index rows acc)
 \<and> filter (\<lambda>f. \<not> is_future_warning f) (snd (forEach_rows rt clock index rows acc)) =
   filter (\<lambda>f. \<not> is_future_warning f) (snd (forEach_rows rt clock' index rows acc))"
proof -
  have "concat (map (\<lambda>(i, r). fst (validate_row rt (clock i) i r ([], [])))
                  (enumerate index rows)) =
        concat (map (\<lambda>(i, r). fst (validate_row rt (clock' i) i r ([], [])))
                  (enumerate index rows))"
    by (induction rows arbitrary: index) (use validate_row_clock in auto)
  moreover have
    "filter (\<lambda>f. \<not> is_future_warning f)
       (concat (map (\<lambda>(i, r). snd (validate_row rt (clock i) i r ([], [])))
                  (enumerate index rows))) =
     filter (\<lambda>f. \<not> is_future_warning f)
       (concat (map (\<lambda>(i, r). snd (validate_row rt (clock' i) i r ([], [])))
                  (enumerate index rows)))"
    by (induction rows arbitrary: index) (use validate_row_clock in auto)
  ultimately show ?thesis by (simp add: forEach_rows_enumerate)
qed

text \<open>
  Claim C6, amended: \<open>validateSheetStructure\<close> is a function of the row collection alone
  (it has no other argument here, as the code reads nothing else), and
  \<open>validateExcelData\<close> is a function of the row collection and of the clock readings
  taken during the run. Two runs on the same rows return the same findings apart from
  the warnings for a date in the future: with those warnings left out the two lists
  are equal, and so are the findings of severity error.
\<close>

theorem validateExcelData_clock_independent:
  "filter (\<lambda>f. \<not> is_future_warning f) (validateExcelData rt clock input) =
   filter (\<lambda>f. \<not> is_future_warning f) (validateExcelData rt clock' input)
 \<and> filter (\<lambda>f. severity f = Some SevError) (validateExcelData rt clock input) =
   filter (\<lambda>f. severity f = Some SevError) (validateExcelData rt clock' input)"
proof (cases input)
  case NotArray
  then show ?thesis by (simp add: validateExcelData_def)
next
  case (Rows rows)
  show ?thesis
  proof (cases rows)
    case Nil
    then show ?thesis using Rows by (simp add: validateExcelData_def)
  next
    case (Cons firstRow rest)
    show ?thesis
    proof (cases "filter (\<lambda>col. \<not> has_key firstRow col) requiredColumns = []")
      case False
      then show ?thesis using Rows Cons by (simp add: validateExcelData_def Let_def)
    next
      case True
      let ?a = "forEach_rows rt clock 0 (firstRow # rest) ([], [])"
      let ?b = "forEach_rows rt clock' 0 (firstRow # rest) ([], [])"
      have o1: "validateExcelData rt clock input = fst ?a @ snd ?a"
        and o2: "validateExcelData rt clock' input = fst ?b @ snd ?b"
        using True Rows Cons
        by (simp_all add: validateExcelData_def Let_def del: forEach_rows.simps)
      have f: "fst ?a = fst ?b"
        and s: "filter (\<lambda>f. \<not> is_future_warning f) (snd ?a) =
                filter (\<lambda>f. \<not> is_future_warning f) (snd ?b)"
        using forEach_rows_clock[of rt clock 0 "firstRow # rest" "([], [])" clock'] by auto
      have wa: "\<forall>f\<in>set (snd ?a). severity f = Some SevWarning"
        using validate_row_warnings by (fastforce simp: forEach_rows_enumerate)
      have wb: "\<forall>f\<in>set (snd ?b). severity f = Some SevWarning"
        using validate_row_warnings by (fastforce simp: forEach_rows_enumerate)
      have na: "filter (\<lambda>f. severity f = Some SevError) (snd ?a) = []"
        using wa by (simp add: filter_empty_conv)
      have nb: "filter (\<lambda>f. severity f = Some SevError) (snd ?b) = []"
        using wb by (simp add: filter_empty_conv)
      show ?thesis using o1 o2 f s na nb by simp
    qed
  qed
qed

lemma two_rows_early_run:
  "validateExcelData basic_runtime (\<lambda>i. noon_4_Jan_2024) (Rows [row_large, row_bad]) =
     [cell_finding 2 ''Name'' ''Name is required'' SevError,
      cell_finding 2 ''Amount'' ''Amount must be positive'' SevError,
      cell_finding 2 ''Date'' ''Invalid date format'' SevError,
      cell_finding 2 ''Verified'' ''Verified must be Yes/No or True/False'' SevError,
      cell_finding 1 ''Amount'' ''Amount is unusually large (>1,000,000)'' SevWarning,
      cell_finding 1 ''Date'' ''Date is in the future'' SevWarning]"
  by code_simp

theorem validateExcelData_clock_independent_witness:
  "filter (\<lambda>f. \<not> is_future_warning f)
     (validateExcelData basic_runtime (\<lambda>i. start_Feb_2024) (Rows [row_large, row_bad])) =
     [cell_finding 2 ''Name'' ''Name is required'' SevError,
      cell_finding 2 ''Amount'' ''Amount must be positive'' SevError,
      cell_finding 2 ''Date'' ''Invalid date format'' SevError,
      cell_finding 2 ''Verified'' ''Verified must be Yes/No or True/False'' SevError,
      cell_finding 1 ''Amount'' ''Amount is unusually large (>1,000,000)'' SevWarning]
 \<and> filter (\<lambda>f. severity f = Some SevError)
     (validateExcelData basic_runtime (\<lambda>i. start_Feb_2024) (Rows [row_large, row_bad])) =
     [cell_finding 2 ''Name'' ''Name is required'' SevError,
      cell_finding 2 ''Amount'' ''Amount must be positive'' SevError,
      cell_finding 2 ''Date'' ''Invalid date format'' SevError,
      cell_finding 2 ''Verified'' ''Verified must be Yes/No or True/False'' SevError]"
  using validateExcelData_clock_independent
          [of basic_runtime "\<lambda>i. start_Feb_2024" "Rows [row_large, row_bad]"
              "\<lambda>i. noon_4_Jan_2024"]
        two_rows_early_run
  by (simp add: is_future_warning_def cell_finding_def)

section \<open>Row numbers on the client and on the server\<close>

lemma validateRow_loop_Inr:
  assumes "\<forall>(c, f)\<in>set cols. map_of (validations config) f \<noteq> None"
  shows "\<exists>new td' valid'.
           validateRow_loop rt reads r config n sname cols (errors, td, valid) =
             Inr (errors @ new, td', valid')
         \<and> (\<forall>e\<in>set new. at_row e = n \<and> sheet e = sname)
         \<and> (valid' \<longleftrightarrow> valid \<and> new = [])"
  using assms
proof (induction cols arbitrary: errors td valid)
  case Nil
  then show ?case by simp
next
  case (Cons col cols)
  obtain c f where col: "col = (c, f)" by (cases col)
  from Cons.prems obtain vd where vd: "map_of (validations config) f = Some vd"
    by (auto simp: col)
  have rest: "\<forall>(c, f)\<in>set cols. map_of (validations config) f \<noteq> None"
    using Cons.prems by simp
  let ?v = "get_prop r c"
  let ?e1 = "\<lparr>sheet = sname, at_row = n, msg = c @ '' is required''\<rparr>"
  consider (req) "required vd \<and> \<not> truthy ?v"
    | (ok) v' where "\<not> (required vd \<and> \<not> truthy ?v)" "validateField rt reads ?v vd c = Inr v'"
    | (err) e where "\<not> (required vd \<and> \<not> truthy ?v)" "validateField rt reads ?v vd c = Inl e"
    by (cases "validateField rt reads ?v vd c") auto
  then show ?case
  proof cases
    case req
    from Cons.IH[OF rest, of "errors @ [?e1]" td False] obtain new td' valid' where
      "validateRow_loop rt reads r config n sname cols (errors @ [?e1], td, False) =
         Inr ((errors @ [?e1]) @ new, td', valid')"
      "\<forall>e\<in>set new. at_row e = n \<and> sheet e = sname" "valid' \<longleftrightarrow> False \<and> new = []"
      by blast
    then show ?thesis using req vd
      by (intro exI[of _ "?e1 # new"] exI[of _ td'] exI[of _ valid']) (simp add: col)
  next
    case ok
    from Cons.IH[OF rest, of errors "td(f \<mapsto> v')" valid] obtain new td' valid' where
      "validateRow_loop rt reads r config n sname cols (errors, td(f \<mapsto> v'), valid) =
         Inr (errors @ new, td', valid')"
      "\<forall>e\<in>set new. at_row e = n \<and> sheet e = sname" "valid' \<longleftrightarrow> valid \<and> new = []"
      by blast
    then show ?thesis using ok vd
      by (intro exI[of _ new] exI[of _ td'] exI[of _ valid']) (auto simp: col)
  next
    case err
    let ?e2 = "\<lparr>sheet = sname, at_row = n, msg = err_message e\<rparr>"
    from Cons.IH[OF rest, of "errors @ [?e2]" td False] obtain new td' valid' where
      "validateRow_loop rt reads r config n sname cols (errors @ [?e2], td, False) =
         Inr ((errors @ [?e2]) @ new, td', valid')"
      "\<forall>e\<in>set new. at_row e = n \<and> sheet e = sname" "valid' \<longleftrightarrow> False \<and> new = []"
      by blast
    then show ?thesis using err vd
      by (intro exI[of _ "?e2 # new"] exI[of _ td'] exI[of _ valid']) (auto simp: col)
  qed
qed

lemma default_config_complete:
  "\<forall>(c, f)\<in>set (columnMapping default_config). map_of (validations default_config) f \<noteq> None"
  by (simp add: default_config_def)

text \<open>Under the default configuration \<open>validateRow\<close> returns; a row is valid exactly
  when it has no error.\<close>

lemma validateRow_default:
  "\<exists>res. validateRow rt reads r default_config n sname = Inr res
        \<and> (\<forall>e\<in>set (row_errors res). at_row e = n \<and> sheet e = sname)
        \<and> (isValid res \<longleftrightarrow> row_errors res = [])
        \<and> (isValid res \<longleftrightarrow> row_data res \<noteq> None)"
proof -
  from validateRow_loop_Inr[OF default_config_complete, of rt reads r n sname "[]" Map.empty True]
  obtain new td' valid' where
    "validateRow_loop rt reads r default_config n sname (columnMapping default_config)
       ([], Map.empty, True) = Inr (new, td', valid')"
    "\<forall>e\<in>set new. at_row e = n \<and> sheet e = sname" "valid' \<longleftrightarrow> new = []"
    by auto
  then show ?thesis by (simp add: validateRow_def)
qed

lemma server_row_errors_at_row:
  "e \<in> set (server_row_errors rt reads r n sname) \<Longrightarrow> at_row e = n"
  using validateRow_default[of rt reads r n sname] by (auto simp: server_row_errors_def)

lemma validateSheetData_loop_enumerate:
  "\<exists>vs. validateSheetData_loop rt sclock sname index rows st =
          Inr (fst st @ vs,
               snd st @ concat (map (\<lambda>(i, r). server_row_errors rt (sclock i) r (i + 2) sname)
                                  (enumerate index rows)))"
proof (induction rows arbitrary: index st)
  case Nil
  then show ?case by (intro exI[of _ "[]"]) simp
next
  case (Cons r rows)
  obtain res where
    res: "validateRow rt (sclock index) r default_config (index + 2) sname = Inr res"
    and v: "isValid res \<longleftrightarrow> row_errors res = []"
    using validateRow_default[of rt "sclock index" r "index + 2" sname] by blast
  have sre: "server_row_errors rt (sclock index) r (index + 2) sname = row_errors res"
    using res by (simp add: server_row_errors_def)
  let ?st = "if isValid res then (fst st @ [the (row_data res)], snd st)
             else (fst st, snd st @ row_errors res)"
  from Cons.IH[of "Suc index" ?st] obtain vs where
    "validateSheetData_loop rt sclock sname (Suc index) rows ?st =
       Inr (fst ?st @ vs,
            snd ?st @ concat (map (\<lambda>(i, r). server_row_errors rt (sclock i) r (i + 2) sname)
                               (enumerate (Suc index) rows)))"
    by blast
  then show ?case using res v sre
    by (cases "isValid res")
       (auto simp: Let_def intro: exI[of _ "the (row_data res) # vs"] exI[of _ vs])
qed

text \<open>
  Claim C9: every finding the client's validator adds for the row at index \<open>i\<close> has row
  number \<open>i + 1\<close>, and every error the server records for the row at index \<open>i\<close> has
  row number \<open>i + 2\<close>: the result of \<open>validateExcelData\<close> is made of what
  \<open>validate_row\<close> adds for each index, and the errors of \<open>validateSheetData\<close> are those
  of \<open>validateRow\<close> called with \<open>i + 2\<close> for each index. The two numbers of a row differ
  by one.
\<close>

theorem row_numbers_client_and_server:
  "(\<forall>f\<in>set (fst (validate_row rt now i r ([], []))) \<union>
          set (snd (validate_row rt now i r ([], []))). row f = i + 1)
 \<and> (\<forall>e\<in>set (server_row_errors rt reads r (i + 2) sname). at_row e = i + 2)
 \<and> ((\<forall>col\<in>set requiredColumns. has_key firstRow col) \<longrightarrow>
      validateExcelData rt clock (Rows (firstRow # rest)) =
        concat (map (\<lambda>(i, r). fst (validate_row rt (clock i) i r ([], [])))
                  (enumerate 0 (firstRow # rest))) @
        concat (map (\<lambda>(i, r). snd (validate_row rt (clock i) i r ([], [])))
                  (enumerate 0 (firstRow # rest))))
 \<and> (\<exists>vs. validateSheetData rt sclock rows sname =
            Inr (vs, concat (map (\<lambda>(i, r). server_row_errors rt (sclock i) r (i + 2) sname)
                               (enumerate 0 rows))))"
proof -
  have 1: "\<forall>f\<in>set (fst (validate_row rt now i r ([], []))) \<union>
               set (snd (validate_row rt now i r ([], []))). row f = i + 1"
    using validate_row_errors validate_row_warnings by blast
  have 2: "\<forall>e\<in>set (server_row_errors rt reads r (i + 2) sname). at_row e = i + 2"
    using server_row_errors_at_row by blast
  have 4: "\<exists>vs. validateSheetData rt sclock rows sname =
            Inr (vs, concat (map (\<lambda>(i, r). server_row_errors rt (sclock i) r (i + 2) sname)
                               (enumerate 0 rows)))"
    using validateSheetData_loop_enumerate[of rt sclock sname 0 rows "([], [])"]
    by (simp add: validateSheetData_def)
  show ?thesis using 1 2 4 validateExcelData_rows by blast
qed

lemma row_bad_client_errors:
  "fst (validate_row basic_runtime start_Feb_2024 1 row_bad ([], [])) =
     [cell_finding 2 ''Name'' ''Name is required'' SevError,
      cell_finding 2 ''Amount'' ''Amount must be positive'' SevError,
      cell_finding 2 ''Date'' ''Invalid date format'' SevError,
      cell_finding 2 ''Verified'' ''Verified must be Yes/No or True/False'' SevError]
 \<and> snd (validate_row basic_runtime start_Feb_2024 1 row_bad ([], [])) = []"
  by code_simp

lemma row_bad_server_errors:
  "server_row_errors basic_runtime (start_Feb_2024, start_Feb_2024) row_bad 3 ''Sheet1'' =
     [\<lparr>sheet = ''Sheet1'', at_row = 3, msg = ''Name is required''\<rparr>,
      \<lparr>sheet = ''Sheet1'', at_row = 3, msg = ''Amount must be greater than 0''\<rparr>,
      \<lparr>sheet = ''Sheet1'', at_row = 3, msg = ''Date must be a valid date''\<rparr>]"
  by code_simp

lemma two_rows_client:
  "concat (map (\<lambda>(i, r). fst (validate_row basic_runtime start_Feb_2024 i r ([], [])))
             (enumerate 0 [row_large, row_bad])) @
   concat (map (\<lambda>(i, r). snd (validate_row basic_runtime start_Feb_2024 i r ([], [])))
             (enumerate 0 [row_large, row_bad])) =
     [cell_finding 2 ''Name'' ''Name is required'' SevError,
      cell_finding 2 ''Amount'' ''Amount must be positive'' SevError,
      cell_finding 2 ''Date'' ''Invalid date format'' SevError,
      cell_finding 2 ''Verified'' ''Verified must be Yes/No or True/False'' SevError,
      cell_finding 1 ''Amount'' ''Amount is unusually large (>1,000,000)'' SevWarning]"
  by code_simp

lemma two_rows_server:
  "concat (map (\<lambda>(i, r). server_row_errors basic_runtime (start_Feb_2024, start_Feb_2024) r
                          (i + 2) ''Sheet1'')
             (enumerate 0 [row_large, row_bad])) =
     [\<lparr>sheet = ''Sheet1'', at_row = 3, msg = ''Name is required''\<rparr>,
      \<lparr>sheet = ''Sheet1'', at_row = 3, msg = ''Amount must be greater than 0''\<rparr>,
      \<lparr>sheet = ''Sheet1'', at_row = 3, msg = ''Date must be a valid date''\<rparr>]"
  by code_simp

theorem row_numbers_client_and_server_witness:
  "list_all (\<lambda>f. row f = 2)
     (fst (validate_row basic_runtime start_Feb_2024 1 row_bad ([], [])))
 \<and> length (fst (validate_row basic_runtime start_Feb_2024 1 row_bad ([], []))) = 4
 \<and> list_all (\<lambda>e. at_row e = 3)
     (server_row_errors basic_runtime (start_Feb_2024, start_Feb_2024) row_bad 3 ''Sheet1'')
 \<and> length (server_row_errors basic_runtime (start_Feb_2024, start_Feb_2024) row_bad 3
             ''Sheet1'') = 3
 \<and> validateExcelData basic_runtime (\<lambda>i. start_Feb_2024) (Rows [row_large, row_bad]) =
     [cell_finding 2 ''Name'' ''Name is required'' SevError,
      cell_finding 2 ''Amount'' ''Amount must be positive'' SevError,
      cell_finding 2 ''Date'' ''Invalid date format'' SevError,
      cell_finding 2 ''Verified'' ''Verified must be Yes/No or True/False'' SevError,
      cell_finding 1 ''Amount'' ''Amount is unusually large (>1,000,000)'' SevWarning]
 \<and> (\<exists>vs. validateSheetData basic_runtime (\<lambda>i. (start_Feb_2024, start_Feb_2024))
            [row_large, row_bad] ''Sheet1'' =
          Inr (vs,
               [\<lparr>sheet = ''Sheet1'', at_row = 3, msg = ''Name is required''\<rparr>,
                \<lparr>sheet = ''Sheet1'', at_row = 3, msg = ''Amount must be greater than 0''\<rparr>,
                \<lparr>sheet = ''Sheet1'', at_row = 3, msg = ''Date must be a valid date''\<rparr>]))"
proof -
  have n2: "(1::nat) + 1 = 2" and n3: "(1::nat) + 2 = 3"
    by simp_all
  note t = row_numbers_client_and_server
             [where rt = basic_runtime and now = start_Feb_2024 and i = 1 and r = row_bad
                and reads = "(start_Feb_2024, start_Feb_2024)" and sname = "''Sheet1''"
                and firstRow = row_large and rest = "[row_bad]"
                and clock = "\<lambda>i. start_Feb_2024"
                and sclock = "\<lambda>i. (start_Feb_2024, start_Feb_2024)"
                and rows = "[row_large, row_bad]", unfolded n2 n3]
  from t have "\<forall>f\<in>set (fst (validate_row basic_runtime start_Feb_2024 1 row_bad ([], []))).
                 row f = 2"
    by blast
  then have a: "list_all (\<lambda>f. row f = 2)
             (fst (validate_row basic_runtime start_Feb_2024 1 row_bad ([], [])))"
    unfolding list_all_iff .
  from t have "\<forall>e\<in>set (server_row_errors basic_runtime (start_Feb_2024, start_Feb_2024)
                         row_bad 3 ''Sheet1''). at_row e = 3"
    by blast
  then have b: "list_all (\<lambda>e. at_row e = 3)
             (server_row_errors basic_runtime (start_Feb_2024, start_Feb_2024) row_bad 3
                ''Sheet1'')"
    unfolding list_all_iff .
  from t required_columns_row_large
  have "validateExcelData basic_runtime (\<lambda>i. start_Feb_2024) (Rows [row_large, row_bad]) =
          concat (map (\<lambda>(i, r). fst (validate_row basic_runtime start_Feb_2024 i r ([], [])))
                    (enumerate 0 [row_large, row_bad])) @
          concat (map (\<lambda>(i, r). snd (validate_row basic_runtime start_Feb_2024 i r ([], [])))
                    (enumerate 0 [row_large, row_bad]))"
    by blast
  then have c: "validateExcelData basic_runtime (\<lambda>i. start_Feb_2024) (Rows [row_large, row_bad]) =
     [cell_finding 2 ''Name'' ''Name is required'' SevError,
      cell_finding 2 ''Amount'' ''Amount must be positive'' SevError,
      cell_finding 2 ''Date'' ''Invalid date format'' SevError,
      cell_finding 2 ''Verified'' ''Verified must be Yes/No or True/False'' SevError,
      cell_finding 1 ''Amount'' ''Amount is unusually large (>1,000,000)'' SevWarning]"
    unfolding two_rows_client .
  from t have "\<exists>vs. validateSheetData basic_runtime (\<lambda>i. (start_Feb_2024, start_Feb_2024))
            [row_large, row_bad] ''Sheet1'' =
          Inr (vs, concat (map (\<lambda>(i, r). server_row_errors basic_runtime
                                            (start_Feb_2024, start_Feb_2024) r (i + 2) ''Sheet1'')
                             (enumerate 0 [row_large, row_bad])))"
    by blast
  then have d: "\<exists>vs. validateSheetData basic_runtime (\<lambda>i. (start_Feb_2024, start_Feb_2024))
            [row_large, row_bad] ''Sheet1'' =
          Inr (vs,
               [\<lparr>sheet = ''Sheet1'', at_row = 3, msg = ''Name is required''\<rparr>,
                \<lparr>sheet = ''Sheet1'', at_row = 3, msg = ''Amount must be greater than 0''\<rparr>,
                \<lparr>sheet = ''Sheet1'', at_row = 3, msg = ''Date must be a valid date''\<rparr>])"
    unfolding two_rows_server .
  have l1: "length (fst (validate_row basic_runtime start_Feb_2024 1 row_bad ([], []))) = 4"
    using row_bad_client_errors by simp
  have l2: "length (server_row_errors basic_runtime (start_Feb_2024, start_Feb_2024) row_bad 3
             ''Sheet1'') = 3"
    using row_bad_server_errors by simp
  show ?thesis
    using a b c d l1 l2 by blast
qed

section \<open>Calendar days and their ISO form\<close>

text \<open>
  The year, month and day that the date functions give for a day number are an existing
  calendar date, \<open>MakeDay\<close> leads back from them to the day number, and \<open>Date.parse\<close>
  reads the ISO form of a day as the midnight of that day.
\<close>

lemma div_bounds:
  fixes x k :: int
  assumes "0 < k"
  shows "k * (x div k) \<le> x" and "x < k * (x div k) + k"
proof -
  have "x = k * (x div k) + x mod k" by simp
  moreover have "0 \<le> x mod k" "x mod k < k" using assms by simp_all
  ultimately show "k * (x div k) \<le> x" and "x < k * (x div k) + k" by linarith+
qed

lemma DayFromYear_bounds:
  shows "146097 * (y - 1970) - 800 \<le> 400 * DayFromYear y"
    and "400 * DayFromYear y \<le> 146097 * (y - 1970) + 800"
proof -
  define a where "a = (y - 1969) div 4"
  define b where "b = (y - 1901) div 100"
  define c where "c = (y - 1601) div 400"
  have A: "4 * a \<le> y - 1969" "y - 1969 < 4 * a + 4"
    unfolding a_def using div_bounds[of 4 "y - 1969"] by simp_all
  have B: "100 * b \<le> y - 1901" "y - 1901 < 100 * b + 100"
    unfolding b_def using div_bounds[of 100 "y - 1901"] by simp_all
  have C: "400 * c \<le> y - 1601" "y - 1601 < 400 * c + 400"
    unfolding c_def using div_bounds[of 400 "y - 1601"] by simp_all
  have D: "DayFromYear y = 365 * (y - 1970) + a - b + c"
    by (simp add: DayFromYear_def a_def b_def c_def)
  show "146097 * (y - 1970) - 800 \<le> 400 * DayFromYear y"
    unfolding D using A B C by (simp add: algebra_simps)
  show "400 * DayFromYear y \<le> 146097 * (y - 1970) + 800"
    unfolding D using A B C by (simp add: algebra_simps)
qed

lemma YearFromDay_ok:
  shows "DayFromYear (YearFromDay d) \<le> d" and "d < DayFromYear (YearFromDay d + 1)"
proof -
  define q where "q = (400 * d) div 146097"
  have Q: "146097 * q \<le> 400 * d" "400 * d < 146097 * q + 146097"
    unfolding q_def using div_bounds[of 146097 "400 * d"] by simp_all
  have lo: "DayFromYear (1970 + q - 1) \<le> d"
    using DayFromYear_bounds(2)[of "1970 + q - 1"] Q by (simp add: algebra_simps)
  have hi: "d < DayFromYear (1970 + q + 1 + 1)"
    using DayFromYear_bounds(1)[of "1970 + q + 1 + 1"] Q by (simp add: algebra_simps)
  show "DayFromYear (YearFromDay d) \<le> d"
    unfolding YearFromDay_def Let_def q_def[symmetric] using lo by auto
  show "d < DayFromYear (YearFromDay d + 1)"
    unfolding YearFromDay_def Let_def q_def[symmetric] using hi by auto
qed

lemma div_step:
  fixes x k :: int
  assumes "0 < k"
  shows "(x + 1) div k = x div k + (if (x + 1) mod k = 0 then 1 else 0)"
proof -
  define q where "q = (x + 1) div k"
  define r where "r = (x + 1) mod k"
  have e: "x + 1 = k * q + r" by (simp add: q_def r_def)
  have r: "0 \<le> r" "r < k" using assms by (simp_all add: r_def)
  show ?thesis
  proof (cases "r = 0")
    case True
    have "x = k * (q - 1) + (k - 1)" using e True by (simp add: algebra_simps)
    then have "x div k = q - 1"
      using assms by (intro int_div_pos_eq[of x k "q - 1" "k - 1"]) simp_all
    then show ?thesis using True by (simp add: q_def[symmetric] r_def[symmetric])
  next
    case False
    have "x = k * q + (r - 1)" using e by simp
    then have "x div k = q"
      using r False by (intro int_div_pos_eq[of x k q "r - 1"]) simp_all
    then show ?thesis using False by (simp add: q_def[symmetric] r_def[symmetric])
  qed
qed

lemma leap_mods:
  fixes y :: int
  shows "(y - 1969 + 1) mod 4 = y mod 4"
    and "(y - 1901 + 1) mod 100 = y mod 100"
    and "(y - 1601 + 1) mod 400 = y mod 400"
proof -
  have "y - 1969 + 1 = y + 4 * (- 492)" by simp
  then show "(y - 1969 + 1) mod 4 = y mod 4" by (simp only: mod_mult_self2)
  have "y - 1901 + 1 = y + 100 * (- 19)" by simp
  then show "(y - 1901 + 1) mod 100 = y mod 100" by (simp only: mod_mult_self2)
  have "y - 1601 + 1 = y + 400 * (- 4)" by simp
  then show "(y - 1601 + 1) mod 400 = y mod 400" by (simp only: mod_mult_self2)
qed

lemma leap_cascade:
  fixes y :: int
  shows "y mod 400 = 0 \<Longrightarrow> y mod 100 = 0" and "y mod 100 = 0 \<Longrightarrow> y mod 4 = 0"
proof -
  have a: "y mod 100 = y mod 400 mod 100" by (simp add: mod_mod_cancel)
  have b: "y mod 4 = y mod 100 mod 4" by (simp add: mod_mod_cancel)
  show "y mod 400 = 0 \<Longrightarrow> y mod 100 = 0" using a by simp
  show "y mod 100 = 0 \<Longrightarrow> y mod 4 = 0" using b by simp
qed

lemma DayFromYear_Suc: "DayFromYear (y + 1) = DayFromYear y + DaysInYear y"
proof -
  have s4: "(y - 1969 + 1) div 4 = (y - 1969) div 4 + (if y mod 4 = 0 then 1 else 0)"
    using div_step[of 4 "y - 1969", unfolded leap_mods] by simp
  have s100: "(y - 1901 + 1) div 100 = (y - 1901) div 100 + (if y mod 100 = 0 then 1 else 0)"
    using div_step[of 100 "y - 1901", unfolded leap_mods] by simp
  have s400: "(y - 1601 + 1) div 400 = (y - 1601) div 400 + (if y mod 400 = 0 then 1 else 0)"
    using div_step[of 400 "y - 1601", unfolded leap_mods] by simp
  have e: "DayFromYear (y + 1) =
             365 * (y - 1970) + 365 + (y - 1969 + 1) div 4 - (y - 1901 + 1) div 100
               + (y - 1601 + 1) div 400"
    by (simp add: DayFromYear_def algebra_simps)
  show ?thesis
    unfolding e s4 s100 s400 using leap_cascade[of y]
    by (auto simp: DayFromYear_def DaysInYear_def)
qed

lemma DayWithinYear_range:
  shows "0 \<le> DayWithinYear d" and "DayWithinYear d < DaysInYear (YearFromDay d)"
  using YearFromDay_ok[of d] DayFromYear_Suc[of "YearFromDay d"]
  by (simp_all add: DayWithinYear_def)

lemma InLeapYear_cases: "InLeapYear d = 0 \<or> InLeapYear d = 1"
  by (simp add: InLeapYear_def)

lemma DaysInYear_leap: "DaysInYear (YearFromDay d) = 365 + InLeapYear d"
  by (simp add: InLeapYear_def DaysInYear_def)

lemma MonthFromDay_range: "0 \<le> MonthFromDay d \<and> MonthFromDay d \<le> 11"
  by (simp add: MonthFromDay_def Let_def)

lemma DateFromDay_valid:
  "valid_date (YearFromDay d) (nat (MonthFromDay d + 1)) (nat (DateFromDay d))"
proof -
  define n where "n = DayWithinYear d"
  define l where "l = InLeapYear d"
  have n: "0 \<le> n" "n < 365 + l"
    using DayWithinYear_range[of d] by (simp_all add: n_def l_def DaysInYear_leap)
  have l: "l = 0 \<or> l = 1" using InLeapYear_cases by (simp add: l_def)
  have ly: "DaysInYear (YearFromDay d) = 366 \<longleftrightarrow> l = 1"
    by (simp add: l_def DaysInYear_leap)
  consider (m0) "n < 31"
    | (m1) "31 \<le> n" "n < 59 + l"
    | (m2) "59 + l \<le> n" "n < 90 + l"
    | (m3) "90 + l \<le> n" "n < 120 + l"
    | (m4) "120 + l \<le> n" "n < 151 + l"
    | (m5) "151 + l \<le> n" "n < 181 + l"
    | (m6) "181 + l \<le> n" "n < 212 + l"
    | (m7) "212 + l \<le> n" "n < 243 + l"
    | (m8) "243 + l \<le> n" "n < 273 + l"
    | (m9) "273 + l \<le> n" "n < 304 + l"
    | (m10) "304 + l \<le> n" "n < 334 + l"
    | (m11) "334 + l \<le> n"
    using n l by linarith
  then show ?thesis
  proof cases
    case m0
    have m: "MonthFromDay d = 0"
      unfolding MonthFromDay_def Let_def n_def[symmetric] l_def[symmetric]
      using m0 l by auto
    show ?thesis
      unfolding valid_date_def DaysInMonth_def DateFromDay_def m MonthStart_def
        n_def[symmetric] l_def[symmetric] ly
      using m0 n l by auto
  next
    case m1
    have m: "MonthFromDay d = 1"
      unfolding MonthFromDay_def Let_def n_def[symmetric] l_def[symmetric]
      using m1 l by auto
    show ?thesis
      unfolding valid_date_def DaysInMonth_def DateFromDay_def m MonthStart_def
        n_def[symmetric] l_def[symmetric] ly
      using m1 n l by auto
  next
    case m2
    have m: "MonthFromDay d = 2"
      unfolding MonthFromDay_def Let_def n_def[symmetric] l_def[symmetric]
      using m2 l by auto
    show ?thesis
      unfolding valid_date_def DaysInMonth_def DateFromDay_def m MonthStart_def
        n_def[symmetric] l_def[symmetric] ly
      using m2 n l by auto
  next
    case m3
    have m: "MonthFromDay d = 3"
      unfolding MonthFromDay_def Let_def n_def[symmetric] l_def[symmetric]
      using m3 l by auto
    show ?thesis
      unfolding valid_date_def DaysInMonth_def DateFromDay_def m MonthStart_def
        n_def[symmetric] l_def[symmetric] ly
      using m3 n l by auto
  next
    case m4
    have m: "MonthFromDay d = 4"
      unfolding MonthFromDay_def Let_def n_def[symmetric] l_def[symmetric]
      using m4 l by auto
    show ?thesis
      unfolding valid_date_def DaysInMonth_def DateFromDay_def m MonthStart_def
        n_def[symmetric] l_def[symmetric] ly
      using m4 n l by auto
  next
    case m5
    have m: "MonthFromDay d = 5"
      unfolding MonthFromDay_def Let_def n_def[symmetric] l_def[symmetric]
      using m5 l by auto
    show ?thesis
      unfolding valid_date_def DaysInMonth_def DateFromDay_def m MonthStart_def
        n_def[symmetric] l_def[symmetric] ly
      using m5 n l by auto
  next
    case m6
    have m: "MonthFromDay d = 6"
      unfolding MonthFromDay_def Let_def n_def[symmetric] l_def[symmetric]
      using m6 l by auto
    show ?thesis
      unfolding valid_date_def DaysInMonth_def DateFromDay_def m MonthStart_def
        n_def[symmetric] l_def[symmetric] ly
      using m6 n l by auto
  next
    case m7
    have m: "MonthFromDay d = 7"
      unfolding MonthFromDay_def Let_def n_def[symmetric] l_def[symmetric]
      using m7 l by auto
    show ?thesis
      unfolding valid_date_def DaysInMonth_def DateFromDay_def m MonthStart_def
        n_def[symmetric] l_def[symmetric] ly
      using m7 n l by auto
  next
    case m8
    have m: "MonthFromDay d = 8"
      unfolding MonthFromDay_def Let_def n_def[symmetric] l_def[symmetric]
      using m8 l by auto
    show ?thesis
      unfolding valid_date_def DaysInMonth_def DateFromDay_def m MonthStart_def
        n_def[symmetric] l_def[symmetric] ly
      using m8 n l by auto
  next
    case m9
    have m: "MonthFromDay d = 9"
      unfolding MonthFromDay_def Let_def n_def[symmetric] l_def[symmetric]
      using m9 l by auto
    show ?thesis
      unfolding valid_date_def DaysInMonth_def DateFromDay_def m MonthStart_def
        n_def[symmetric] l_def[symmetric] ly
      using m9 n l by auto
  next
    case m10
    have m: "MonthFromDay d = 10"
      unfolding MonthFromDay_def Let_def n_def[symmetric] l_def[symmetric]
      using m10 l by auto
    show ?thesis
      unfolding valid_date_def DaysInMonth_def DateFromDay_def m MonthStart_def
        n_def[symmetric] l_def[symmetric] ly
      using m10 n l by auto
  next
    case m11
    have m: "MonthFromDay d = 11"
      unfolding MonthFromDay_def Let_def n_def[symmetric] l_def[symmetric]
      using m11 l by auto
    show ?thesis
      unfolding valid_date_def DaysInMonth_def DateFromDay_def m MonthStart_def
        n_def[symmetric] l_def[symmetric] ly
      using m11 n l by auto
  qed
qed

lemma MakeDay_roundtrip: "MakeDay (YearFromDay d) (MonthFromDay d) (DateFromDay d) = d"
proof -
  have m: "MonthFromDay d div 12 = 0" "MonthFromDay d mod 12 = MonthFromDay d"
    using MonthFromDay_range[of d] by simp_all
  show ?thesis
    by (simp add: MakeDay_def Let_def m DateFromDay_def InLeapYear_def DayWithinYear_def)
qed

lemma YearFromDay_range:
  assumes "\<bar>d\<bar> \<le> 100000000"
  shows "- 271821 \<le> YearFromDay d" and "YearFromDay d \<le> 275760"
proof -
  have a: "146097 * (YearFromDay d - 1970) - 800 \<le> 400 * d"
    using DayFromYear_bounds(1)[of "YearFromDay d"] YearFromDay_ok(1)[of d] by linarith
  have b: "400 * d < 146097 * (YearFromDay d + 1 - 1970) + 800"
    using DayFromYear_bounds(2)[of "YearFromDay d + 1"] YearFromDay_ok(2)[of d] by linarith
  show "- 271821 \<le> YearFromDay d" using b assms by (simp add: algebra_simps)
  show "YearFromDay d \<le> 275760" using a assms by (simp add: algebra_simps)
qed

lemma Day_range:
  assumes "\<bar>t\<bar> \<le> 8640000000000000"
  shows "\<bar>Day t\<bar> \<le> 100000000"
proof -
  have "86400000 * (t div 86400000) \<le> t" "t < 86400000 * (t div 86400000) + 86400000"
    using div_bounds[of 86400000 t] by simp_all
  then show ?thesis using assms unfolding Day_def msPerDay_def by (simp add: algebra_simps)
qed

lemma digit_val_table: "\<forall>j\<in>{0..<10::nat}. digit_val (''0123456789'' ! j) = Some j"
  by code_simp

lemma digit_val_digit_char: "digit_val (digit_char k) = Some (k mod 10)"
proof -
  have "k mod 10 \<in> {0..<10}" by simp
  then show ?thesis
    unfolding digit_char_def using digit_val_table by blast
qed

lemma digits_val_append:
  "digits_val a (xs @ ys) = (case digits_val a xs of None \<Rightarrow> None | Some b \<Rightarrow> digits_val b ys)"
  by (induction xs arbitrary: a) (auto split: option.splits)

lemma length_dec_digits [simp]: "length (dec_digits w n) = w"
  by (induction w arbitrary: n) auto

lemma digits_val_dec_digits:
  "digits_val a (dec_digits w n) = Some (a * 10 ^ w + n mod 10 ^ w)"
proof (induction w arbitrary: n)
  case 0
  then show ?case by simp
next
  case (Suc w)
  have "n mod (10 * 10 ^ w) = 10 * (n div 10 mod 10 ^ w) + n mod 10"
    by (rule mod_mult2_eq)
  then show ?case
    by (simp add: digits_val_append Suc.IH digit_val_digit_char algebra_simps)
qed

lemma digits_val_dec_digits_small:
  "n < 10 ^ w \<Longrightarrow> digits_val 0 (dec_digits w n) = Some n"
  by (simp add: digits_val_dec_digits)

lemma parse_month_day_digits:
  assumes "m < 100" "dd < 100"
  shows "parse_month_day (''-'' @ dec_digits 2 m @ ''-'' @ dec_digits 2 dd) = Some (m, dd)"
proof -
  let ?s = "''-'' @ dec_digits 2 m @ ''-'' @ dec_digits 2 dd"
  have len: "length ?s = 6" by simp
  have s0: "?s ! 0 = CHR ''-''" by simp
  have s3: "?s ! 3 = CHR ''-''" by (simp add: nth_append nth_Cons')
  have t: "take 2 (drop 1 ?s) = dec_digits 2 m" by simp
  have d: "drop 4 ?s = dec_digits 2 dd" by simp
  have vm: "digits_val 0 (dec_digits 2 m) = Some m"
    using assms(1) by (intro digits_val_dec_digits_small) simp
  have vd: "digits_val 0 (dec_digits 2 dd) = Some dd"
    using assms(2) by (intro digits_val_dec_digits_small) simp
  show ?thesis
    unfolding parse_month_day_def len s0 s3 t d vm vd by simp
qed

lemma parse_iso_date_iso:
  assumes "- 999999 \<le> y" "y \<le> 999999" "m < 100" "dd < 100"
  shows "parse_iso_date (iso_year y @ ''-'' @ dec_digits 2 m @ ''-'' @ dec_digits 2 dd) =
           Some (y, m, dd)"
proof (cases "0 \<le> y \<and> y \<le> 9999")
  case True
  let ?s = "dec_digits 4 (nat y) @ ''-'' @ dec_digits 2 m @ ''-'' @ dec_digits 2 dd"
  have iy: "iso_year y = dec_digits 4 (nat y)" using True by (simp add: iso_year_def)
  have len: "length ?s = 10" by simp
  have t: "take 4 ?s = dec_digits 4 (nat y)" by simp
  have d: "drop 4 ?s = ''-'' @ dec_digits 2 m @ ''-'' @ dec_digits 2 dd" by simp
  have "nat y < 10 ^ 4" using True by auto
  then have vy: "digits_val 0 (dec_digits 4 (nat y)) = Some (nat y)"
    by (rule digits_val_dec_digits_small)
  show ?thesis
    unfolding iy parse_iso_date_def len t d vy parse_month_day_digits[OF assms(3,4)]
    using True by simp
next
  case False
  define sg where "sg = (if y < 0 then CHR ''-'' else CHR ''+'')"
  let ?s = "sg # dec_digits 6 (nat \<bar>y\<bar>) @ ''-'' @ dec_digits 2 m @ ''-'' @ dec_digits 2 dd"
  have iy: "iso_year y @ ''-'' @ dec_digits 2 m @ ''-'' @ dec_digits 2 dd = ?s"
    using False by (simp add: iso_year_def sg_def)
  have len: "length ?s = 13" by simp
  have s0: "?s ! 0 = sg" by simp
  have t: "take 6 (drop 1 ?s) = dec_digits 6 (nat \<bar>y\<bar>)" by simp
  have d: "drop 7 ?s = ''-'' @ dec_digits 2 m @ ''-'' @ dec_digits 2 dd" by simp
  have "nat \<bar>y\<bar> < 10 ^ 6" using assms by auto
  then have vy: "digits_val 0 (dec_digits 6 (nat \<bar>y\<bar>)) = Some (nat \<bar>y\<bar>)"
    by (rule digits_val_dec_digits_small)
  have ne: "\<not> length ?s = 10" by simp
  show ?thesis
    unfolding iy parse_iso_date_def
    apply (simp only: len s0 t d vy parse_month_day_digits[OF assms(3,4)])
    using False by (auto simp: sg_def)
qed

lemma parse_iso_date_day:
  assumes "\<bar>d\<bar> \<le> 100000000"
  shows "parse_iso_date (iso_date d) =
           Some (YearFromDay d, nat (MonthFromDay d + 1), nat (DateFromDay d))"
proof -
  have y: "- 999999 \<le> YearFromDay d" "YearFromDay d \<le> 999999"
    using YearFromDay_range[OF assms] by simp_all
  have v: "valid_date (YearFromDay d) (nat (MonthFromDay d + 1)) (nat (DateFromDay d))"
    by (rule DateFromDay_valid)
  have m: "nat (MonthFromDay d + 1) < 100"
    using MonthFromDay_range[of d] by arith
  have dd: "nat (DateFromDay d) < 100"
    using v by (auto simp: valid_date_def DaysInMonth_def split: if_splits)
  show ?thesis
    unfolding iso_date_def using parse_iso_date_iso[OF y m dd] .
qed

lemma Date_parse_iso_date:
  assumes "\<bar>d\<bar> \<le> 100000000"
  shows "Date_parse rt (iso_date d) = Some (d * msPerDay)"
proof -
  have v: "valid_date (YearFromDay d) (nat (MonthFromDay d + 1)) (nat (DateFromDay d))"
    by (rule DateFromDay_valid)
  have m: "int (nat (MonthFromDay d + 1)) - 1 = MonthFromDay d"
    using MonthFromDay_range[of d] by simp
  have dd: "int (nat (DateFromDay d)) = DateFromDay d"
    using v by (auto simp: valid_date_def)
  have r: "\<bar>d * msPerDay\<bar> \<le> 8640000000000000"
    using assms by (simp add: msPerDay_def abs_mult)
  have "Date_parse rt (iso_date d) =
          TimeClip (Fin (of_int (MakeDate
            (MakeDay (YearFromDay d) (int (nat (MonthFromDay d + 1)) - 1)
               (int (nat (DateFromDay d)))) 0)))"
    unfolding Date_parse_def parse_iso_date_day[OF assms]
    by (simp only: option.case prod.case v if_True)
  also have "\<dots> = TimeClip (Fin (of_int (d * msPerDay)))"
    by (simp only: m dd MakeDay_roundtrip MakeDate_def add_0_right)
  also have "\<dots> = Some (d * msPerDay)"
    by (rule TimeClip_int[OF r])
  finally show ?thesis .
qed

lemma new_Date_iso_date:
  assumes "\<bar>t\<bar> \<le> 8640000000000000"
  shows "new_Date rt (JStr (iso_date (Day t))) = Some (Day t * msPerDay)"
proof -
  have d: "\<bar>Day t\<bar> \<le> 100000000" using Day_range[OF assms] .
  have r: "\<bar>Day t * msPerDay\<bar> \<le> 8640000000000000"
    using d by (simp add: msPerDay_def abs_mult)
  show ?thesis
    by (simp only: new_Date.simps Date_parse_iso_date[OF d] option.case TimeClip_int[OF r])
qed

section \<open>The verdicts of the client and of the server\<close>

text \<open>The verdict of the server is the conjunction of its four columns.\<close>

lemma validateRow_loop_valid:
  "validateRow_loop rt reads r config n sname cols (errors, td, valid) = Inr (errors', td', valid')
   \<Longrightarrow> valid' \<longleftrightarrow> valid \<and> list_all (column_ok rt reads r config) cols"
proof (induction cols arbitrary: errors td valid)
  case Nil
  then show ?case by simp
next
  case (Cons col cols)
  obtain c f where col: "col = (c, f)" by (cases col)
  show ?case
  proof (cases "map_of (validations config) f")
    case None
    then show ?thesis using Cons.prems by (simp add: col)
  next
    case (Some vd)
    show ?thesis
    proof (cases "required vd \<and> \<not> truthy (get_prop r c)")
      case True
      then have "validateRow_loop rt reads r config n sname cols
                   (errors @ [\<lparr>sheet = sname, at_row = n, msg = c @ '' is required''\<rparr>], td, False) =
                 Inr (errors', td', valid')"
        using Cons.prems Some by (simp add: col)
      from Cons.IH[OF this] show ?thesis using True Some by (simp add: column_ok_def col)
    next
      case False
      show ?thesis
      proof (cases "validateField rt reads (get_prop r c) vd c")
        case (Inl e)
        then have "validateRow_loop rt reads r config n sname cols
                   (errors @ [\<lparr>sheet = sname, at_row = n, msg = err_message e\<rparr>], td, False) =
                 Inr (errors', td', valid')"
          using Cons.prems Some False by (auto simp: col)
        from Cons.IH[OF this] show ?thesis using Inl Some by (simp add: column_ok_def col)
      next
        case (Inr v')
        then have "validateRow_loop rt reads r config n sname cols
                   (errors, td(f \<mapsto> v'), valid) = Inr (errors', td', valid')"
          using Cons.prems Some False by (auto simp: col)
        from Cons.IH[OF this] show ?thesis using Inr Some False
          by (auto simp: column_ok_def col)
      qed
    qed
  qed
qed

lemma server_accepts_columns:
  "server_accepts rt reads r n sname \<longleftrightarrow>
     list_all (column_ok rt reads r default_config) (columnMapping default_config)"
proof -
  obtain res where res: "validateRow rt reads r default_config n sname = Inr res"
    using validateRow_default[of rt reads r n sname] by blast
  then obtain errors td valid where
    l: "validateRow_loop rt reads r default_config n sname (columnMapping default_config)
          ([], Map.empty, True) = Inr (errors, td, valid)"
    and v: "isValid res = valid"
    by (auto simp: validateRow_def split: sum.splits prod.splits)
  from validateRow_loop_valid[OF l] show ?thesis
    using res v by (simp add: server_accepts_def)
qed

lemma num_lt_zero: "a \<noteq> NaN \<Longrightarrow> a \<noteq> Fin 0 \<Longrightarrow> (\<not> num_lt a (Fin 0)) = num_lt (Fin 0) a"
  by (cases a) auto

lemma num_le_zero: "a \<noteq> NaN \<Longrightarrow> (\<not> num_le a (Fin 0)) = num_lt (Fin 0) a"
  by (cases a) (auto simp: num_le_def)

text \<open>The verdict of the server, column by column.\<close>

lemma server_accepts_iff:
  "server_accepts rt reads r n sname \<longleftrightarrow>
     truthy (get_prop r ''Name'')
   \<and> truthy (get_prop r ''Amount'') \<and> ToNumber rt (get_prop r ''Amount'') \<noteq> NaN
   \<and> \<not> num_lt (ToNumber rt (get_prop r ''Amount'')) (Fin 0)
   \<and> truthy (get_prop r ''Date'') \<and> new_Date rt (get_prop r ''Date'') \<noteq> None
   \<and> isCurrentMonth rt reads (new_Date rt (get_prop r ''Date''))
   \<and> (truthy (get_prop r ''Verified'') \<longrightarrow> (\<exists>s. get_prop r ''Verified'' = JStr s))"
proof -
  have n: "column_ok rt reads r default_config (''Name'', ''name'') \<longleftrightarrow>
             truthy (get_prop r ''Name'')"
    by (simp add: column_ok_def default_config_def validateField_def)
  have a: "column_ok rt reads r default_config (''Amount'', ''amount'') \<longleftrightarrow>
             truthy (get_prop r ''Amount'') \<and> ToNumber rt (get_prop r ''Amount'') \<noteq> NaN
           \<and> \<not> num_lt (ToNumber rt (get_prop r ''Amount'')) (Fin 0)"
    by (simp add: column_ok_def default_config_def validateField_def Let_def)
  have d: "column_ok rt reads r default_config (''Date'', ''date'') \<longleftrightarrow>
             truthy (get_prop r ''Date'') \<and> new_Date rt (get_prop r ''Date'') \<noteq> None
           \<and> isCurrentMonth rt reads (new_Date rt (get_prop r ''Date''))"
    by (simp add: column_ok_def default_config_def validateField_def Let_def
             del: new_Date.simps)
  have v: "column_ok rt reads r default_config (''Verified'', ''verified'') \<longleftrightarrow>
             (truthy (get_prop r ''Verified'') \<longrightarrow> (\<exists>s. get_prop r ''Verified'' = JStr s))"
    by (cases "get_prop r ''Verified''")
       (simp_all add: column_ok_def default_config_def validateField_def default_transform_def)
  have "list_all (column_ok rt reads r default_config) (columnMapping default_config) \<longleftrightarrow>
          column_ok rt reads r default_config (''Name'', ''name'')
        \<and> column_ok rt reads r default_config (''Amount'', ''amount'')
        \<and> column_ok rt reads r default_config (''Date'', ''date'')
        \<and> column_ok rt reads r default_config (''Verified'', ''verified'')"
    by (simp add: default_config_def)
  then show ?thesis unfolding server_accepts_columns n a d v by blast
qed

text \<open>The verdict of the client's validator on a row, column by column.\<close>

lemma trim_Nil: "trim [] = []"
  by (simp add: trim_def)

lemma validate_row_no_error:
  "fst (validate_row rt now i r ([], [])) = [] \<longleftrightarrow>
     (\<exists>s. get_prop r ''Name'' = JStr s \<and> trim s \<noteq> [])
   \<and> get_prop r ''Amount'' \<noteq> JUndefined \<and> get_prop r ''Amount'' \<noteq> JNull
   \<and> ToNumber rt (get_prop r ''Amount'') \<noteq> NaN
   \<and> \<not> num_le (ToNumber rt (get_prop r ''Amount'')) (Fin 0)
   \<and> truthy (get_prop r ''Date'') \<and> new_Date rt (get_prop r ''Date'') \<noteq> None
   \<and> ((\<exists>s. get_prop r ''Verified'' = JStr s \<and>
            trim (toLowerCase s) \<in> {''yes'', ''no'', ''true'', ''false''})
        \<or> (\<exists>b. get_prop r ''Verified'' = JBool b))"
proof -
  have n: "fst (validate_Name (i + 1) r ([], [])) = [] \<longleftrightarrow>
             (\<exists>s. get_prop r ''Name'' = JStr s \<and> trim s \<noteq> [])"
    by (cases "get_prop r ''Name''")
       (auto simp: validate_Name_def push_error_def push_warning_def trim_Nil)
  have a: "fst (validate_Amount rt (i + 1) r ([], [])) = [] \<longleftrightarrow>
             get_prop r ''Amount'' \<noteq> JUndefined \<and> get_prop r ''Amount'' \<noteq> JNull
           \<and> ToNumber rt (get_prop r ''Amount'') \<noteq> NaN
           \<and> \<not> num_le (ToNumber rt (get_prop r ''Amount'')) (Fin 0)"
    by (auto simp: validate_Amount_def push_error_def push_warning_def Let_def)
  have d: "fst (validate_Date rt now (i + 1) r ([], [])) = [] \<longleftrightarrow>
             truthy (get_prop r ''Date'') \<and> new_Date rt (get_prop r ''Date'') \<noteq> None"
    by (auto simp: validate_Date_def push_error_def push_warning_def Let_def
             simp del: new_Date.simps)
  have v: "fst (validate_Verified (i + 1) r ([], [])) = [] \<longleftrightarrow>
             ((\<exists>s. get_prop r ''Verified'' = JStr s \<and>
                  trim (toLowerCase s) \<in> {''yes'', ''no'', ''true'', ''false''})
              \<or> (\<exists>b. get_prop r ''Verified'' = JBool b))"
    by (cases "get_prop r ''Verified''")
       (auto simp: validate_Verified_def push_error_def Let_def)
  show ?thesis unfolding validate_row_fst using n a d v by simp
qed

text \<open>The cells of a normalized row.\<close>

lemma processRow_get_prop:
  assumes "processRow rt r = Inr r'"
  shows "(map_of r k = None \<longrightarrow> map_of r' k = None)
       \<and> (\<forall>v. map_of r k = Some v \<longrightarrow>
            (\<exists>v'. processCell rt k v = Inr v' \<and> map_of r' k = Some v'))"
  using assms
proof (induction r arbitrary: r')
  case Nil
  then show ?case by simp
next
  case (Cons e r)
  obtain key v where e: "e = (key, v)" by (cases e)
  from Cons.prems obtain v' es where
    c: "processCell rt key v = Inr v'" and p: "processRow rt r = Inr es"
    and r': "r' = (key, v') # es"
    by (auto simp: e split: sum.splits)
  from Cons.IH[OF p] show ?case using c by (auto simp: r' e)
qed

lemma not_date_key_Name: "\<not> is_date_key ''Name''"
  by code_simp

lemma not_date_key_Amount: "\<not> is_date_key ''Amount''"
  by code_simp

lemma processRow_Name:
  "processRow rt r = Inr r' \<Longrightarrow> get_prop r' ''Name'' = get_prop r ''Name''"
  using processRow_get_prop[of rt r r' "''Name''"] not_date_key_Name
  by (cases "map_of r ''Name''") (auto simp: get_prop_def processCell_def)

lemma processRow_Amount:
  "processRow rt r = Inr r' \<Longrightarrow> get_prop r' ''Amount'' = get_prop r ''Amount''"
  using processRow_get_prop[of rt r r' "''Amount''"] not_date_key_Amount
  by (cases "map_of r ''Amount''") (auto simp: get_prop_def processCell_def)

lemma processRow_Verified:
  "processRow rt r = Inr r' \<Longrightarrow>
     get_prop r' ''Verified'' =
       (case map_of r ''Verified'' of
          None \<Rightarrow> JUndefined
        | Some v \<Rightarrow>
            (case v of JStr s \<Rightarrow> JBool (trim (toLowerCase s) = ''yes'')
                     | JBool b \<Rightarrow> JBool b | _ \<Rightarrow> JNull))"
  using processRow_get_prop[of rt r r' "''Verified''"]
  by (cases "map_of r ''Verified''") (auto simp: get_prop_def processCell_def split: jsval.splits)

lemma processRow_Date:
  "processRow rt r = Inr r' \<Longrightarrow>
     (case map_of r ''Date'' of
        None \<Rightarrow> get_prop r' ''Date'' = JUndefined
      | Some v \<Rightarrow> processCell rt ''Date'' v = Inr (get_prop r' ''Date''))"
  using processRow_get_prop[of rt r r' "''Date''"]
  by (cases "map_of r ''Date''") (auto simp: get_prop_def)

lemma TimeClip_range:
  assumes "TimeClip x = Some t"
  shows "\<bar>t\<bar> \<le> 8640000000000000"
proof (cases x)
  case (Fin y)
  have b: "\<bar>y\<bar> \<le> 8640000000000000"
    using assms Fin by (simp add: TimeClip_def split: if_splits)
  have t: "t = (if 0 \<le> y then \<lfloor>y\<rfloor> else \<lceil>y\<rceil>)"
    using assms Fin by (simp add: TimeClip_def split: if_splits)
  show ?thesis
  proof (cases "0 \<le> y")
    case True
    have 1: "0 \<le> \<lfloor>y\<rfloor>" using True by linarith
    have 2: "\<lfloor>y\<rfloor> \<le> 8640000000000000" using b by linarith
    have 3: "t = \<lfloor>y\<rfloor>" using t True by simp
    show ?thesis unfolding 3 using 1 2 by linarith
  next
    case False
    have 1: "\<lceil>y\<rceil> \<le> 0" using False by linarith
    have 2: "- 8640000000000000 \<le> \<lceil>y\<rceil>" using b by linarith
    have 3: "t = \<lceil>y\<rceil>" using t False by simp
    show ?thesis unfolding 3 using 1 2 by linarith
  qed
qed (insert assms, simp_all add: TimeClip_def)

lemma isCurrentMonth_None: "\<not> isCurrentMonth rt reads None"
  by (cases "setMonth rt (snd reads) (getMonth rt (fst reads) - 12)")
     (simp_all add: isCurrentMonth_def Let_def)

lemma iso_day_string_None: "iso_day_string None = Inl e \<or> (\<forall>v. iso_day_string None \<noteq> Inr v)"
  by (simp add: iso_day_string_def toISOString_def)

lemma new_Date_string_range:
  assumes "new_Date rt (JStr s) = Some t"
  shows "\<bar>t\<bar> \<le> 8640000000000000"
proof -
  from assms obtain k where k: "TimeClip (Fin (of_int k)) = Some t"
    by (auto split: option.splits)
  then have b: "\<bar>real_of_int k\<bar> \<le> 8640000000000000" and t: "t = k"
    by (auto simp: TimeClip_def split: if_splits)
  from b have "\<bar>k\<bar> \<le> 8640000000000000" by linarith
  then show ?thesis using t by simp
qed

lemma iso_date_not_Nil: "iso_date d \<noteq> []"
  by (simp add: iso_date_def)

lemma name_column_agrees:
  "name_agrees v \<Longrightarrow> (\<exists>s. v = JStr s \<and> trim s \<noteq> []) \<longleftrightarrow> truthy v"
  by (cases v) (auto simp: name_agrees_def trim_Nil)

lemma amount_column_agrees:
  assumes "amount_agrees rt v"
  shows "v \<noteq> JUndefined \<and> v \<noteq> JNull \<and> ToNumber rt v \<noteq> NaN \<and> \<not> num_le (ToNumber rt v) (Fin 0)
         \<longleftrightarrow> truthy v \<and> ToNumber rt v \<noteq> NaN \<and> \<not> num_lt (ToNumber rt v) (Fin 0)"
proof (cases "truthy v")
  case True
  then have z: "ToNumber rt v \<noteq> Fin 0" and u: "v \<noteq> JUndefined" "v \<noteq> JNull"
    using assms by (auto simp: amount_agrees_def)
  show ?thesis using True z u num_lt_zero[of "ToNumber rt v"] num_le_zero[of "ToNumber rt v"]
    by blast
next
  case False
  then have "\<not> num_lt (Fin 0) (ToNumber rt v)" using assms by (simp add: amount_agrees_def)
  then show ?thesis using False num_le_zero[of "ToNumber rt v"] by blast
qed

lemma date_column_agrees:
  assumes p: "processRow rt r = Inr r'" and a: "date_agrees rt reads (get_prop r ''Date'')"
  shows "truthy (get_prop r' ''Date'') \<and> new_Date rt (get_prop r' ''Date'') \<noteq> None
         \<longleftrightarrow> truthy (get_prop r ''Date'') \<and> new_Date rt (get_prop r ''Date'') \<noteq> None
             \<and> isCurrentMonth rt reads (new_Date rt (get_prop r ''Date''))"
proof (cases "map_of r ''Date''")
  case None
  then show ?thesis using processRow_Date[OF p] by (simp add: get_prop_def)
next
  case (Some v)
  then have v: "get_prop r ''Date'' = v" by (simp add: get_prop_def)
  from processRow_Date[OF p] Some
  have c: "processCell rt ''Date'' v = Inr (get_prop r' ''Date'')" by simp
  show ?thesis
  proof (cases "truthy v")
    case False
    then have "get_prop r' ''Date'' = JNull"
      using c is_date_key_Date by (auto simp: processCell_def)
    then show ?thesis using False v by simp
  next
    case True
    consider (num) n where "v = JNum n" | (str) s where "v = JStr s"
      | (other) "\<forall>n. v \<noteq> JNum n" "\<forall>s. v \<noteq> JStr s"
      by blast
    then show ?thesis
    proof cases
      case num
      then have cur: "isCurrentMonth rt reads (new_Date rt v)"
        using a v True by (simp add: date_agrees_def del: new_Date.simps)
      then have valid: "new_Date rt v \<noteq> None"
        by (metis isCurrentMonth_None)
      let ?t = "serial_instant n"
      have i: "iso_day_string ?t = Inr (get_prop r' ''Date'')"
        using c is_date_key_Date True num
        by (simp add: processCell_def)
      then obtain t where t: "?t = Some t"
        using iso_day_string_None by (cases ?t) auto
      have d: "get_prop r' ''Date'' = JStr (iso_date (Day t))"
        using i unfolding t by (simp add: iso_day_string_Some)
      have "new_Date rt (JStr (iso_date (Day t))) = Some (Day t * msPerDay)"
        by (rule new_Date_iso_date[OF TimeClip_range[OF t[unfolded serial_instant_def]]])
      then have l: "truthy (get_prop r' ''Date'') \<and> new_Date rt (get_prop r' ''Date'') \<noteq> None"
        unfolding d by (simp add: iso_date_not_Nil del: new_Date.simps)
      show ?thesis using l cur valid True unfolding v by blast
    next
      case str
      note s = str
      have cur: "new_Date rt v = None \<or> isCurrentMonth rt reads (new_Date rt v)"
        using a v True s by (simp add: date_agrees_def del: new_Date.simps)
      show ?thesis
      proof (cases "new_Date rt (JStr s)")
        case None
        then have "get_prop r' ''Date'' = JNull"
          using c is_date_key_Date True s
          by (simp add: processCell_def del: new_Date.simps)
        then show ?thesis using None v s by simp
      next
        case (Some t)
        then have d: "get_prop r' ''Date'' = JStr (iso_date (Day t))"
          using c is_date_key_Date True s
          by (simp add: processCell_def iso_day_string_Some del: new_Date.simps)
        have "new_Date rt (JStr (iso_date (Day t))) = Some (Day t * msPerDay)"
          by (rule new_Date_iso_date[OF new_Date_string_range[OF Some]])
        then have l: "truthy (get_prop r' ''Date'') \<and> new_Date rt (get_prop r' ''Date'') \<noteq> None"
          unfolding d by (simp add: iso_date_not_Nil del: new_Date.simps)
        show ?thesis using l cur True Some unfolding v s by simp
      qed
    next
      case other
      have cur: "new_Date rt v = None \<or> isCurrentMonth rt reads (new_Date rt v)"
        using a v True other by (cases v) (simp_all add: date_agrees_def del: new_Date.simps)
      have "get_prop r' ''Date'' = v"
        using c is_date_key_Date True other
        by (cases v) (auto simp: processCell_def simp del: new_Date.simps)
      then show ?thesis using cur v by auto
    qed
  qed
qed

lemma verified_column_agrees:
  assumes p: "processRow rt r = Inr r'" and a: "verified_agrees (get_prop r ''Verified'')"
  shows "((\<exists>s. get_prop r' ''Verified'' = JStr s \<and>
             trim (toLowerCase s) \<in> {''yes'', ''no'', ''true'', ''false''})
          \<or> (\<exists>b. get_prop r' ''Verified'' = JBool b))
       \<longleftrightarrow> (truthy (get_prop r ''Verified'') \<longrightarrow> (\<exists>s. get_prop r ''Verified'' = JStr s))"
proof (cases "map_of r ''Verified''")
  case None
  then show ?thesis using a by (simp add: get_prop_def verified_agrees_def)
next
  case (Some v)
  then have v: "get_prop r ''Verified'' = v" by (simp add: get_prop_def)
  show ?thesis using a processRow_Verified[OF p] Some unfolding v
    by (cases v) (auto simp: verified_agrees_def)
qed

text \<open>
  Claim C1 says that for every row the client and the server reach the same verdict.
  The two rule sets differ in every column. The rows below are checked on
  1 February 2024; where the client accepts, it has no finding at all.
  \<^item> \<open>Verified\<close> is null: the client demands a value, the server's configuration has
    \<open>required: false\<close>.
  \<^item> \<open>Verified\<close> is the boolean true: the client accepts a boolean, the server's
    \<open>transform\<close> calls \<open>toLowerCase\<close> on it and the exception is recorded as an error.
  \<^item> \<open>Date\<close> is 5 January 2020: the client accepts any date, the server only one of the
    last twelve months.
  \<^item> \<open>Date\<close> is the serial number 45296 (5 January 2024): the normalizer of the client
    turns it into that day, the server reads it as milliseconds after 1 January 1970.
  \<^item> \<open>Amount\<close> is the string \<open>0\<close>: the client demands a positive amount, the server one
    that is not below 0.
  \<^item> \<open>Name\<close> is the number 5: the client demands text, the server prints the value.
\<close>

theorem verdicts_differ:
  "\<not> client_accepts basic_runtime start_Feb_2024 0
       (example_row (JStr ''A'') (JNum (Fin 50)) (JStr ''2024-01-05'') JNull)
 \<and> server_accepts basic_runtime (start_Feb_2024, start_Feb_2024)
       (example_row (JStr ''A'') (JNum (Fin 50)) (JStr ''2024-01-05'') JNull) 2 ''Sheet1''
 \<and> client_clean basic_runtime start_Feb_2024 0
       (example_row (JStr ''A'') (JNum (Fin 50)) (JStr ''2024-01-05'') (JBool True))
 \<and> \<not> server_accepts basic_runtime (start_Feb_2024, start_Feb_2024)
       (example_row (JStr ''A'') (JNum (Fin 50)) (JStr ''2024-01-05'') (JBool True)) 2 ''Sheet1''
 \<and> client_clean basic_runtime start_Feb_2024 0
       (example_row (JStr ''A'') (JNum (Fin 50)) (JStr ''2020-01-05'') (JStr ''Yes''))
 \<and> \<not> server_accepts basic_runtime (start_Feb_2024, start_Feb_2024)
       (example_row (JStr ''A'') (JNum (Fin 50)) (JStr ''2020-01-05'') (JStr ''Yes'')) 2 ''Sheet1''
 \<and> client_clean basic_runtime start_Feb_2024 0
       (example_row (JStr ''A'') (JNum (Fin 50)) (JNum (Fin 45296)) (JStr ''Yes''))
 \<and> \<not> server_accepts basic_runtime (start_Feb_2024, start_Feb_2024)
       (example_row (JStr ''A'') (JNum (Fin 50)) (JNum (Fin 45296)) (JStr ''Yes'')) 2 ''Sheet1''
 \<and> \<not> client_accepts basic_runtime start_Feb_2024 0
       (example_row (JStr ''A'') (JStr ''0'') (JStr ''2024-01-05'') (JStr ''Yes''))
 \<and> server_accepts basic_runtime (start_Feb_2024, start_Feb_2024)
       (example_row (JStr ''A'') (JStr ''0'') (JStr ''2024-01-05'') (JStr ''Yes'')) 2 ''Sheet1''
 \<and> \<not> client_accepts basic_runtime start_Feb_2024 0
       (example_row (JNum (Fin 5)) (JNum (Fin 50)) (JStr ''2024-01-05'') (JStr ''Yes''))
 \<and> server_accepts basic_runtime (start_Feb_2024, start_Feb_2024)
       (example_row (JNum (Fin 5)) (JNum (Fin 50)) (JStr ''2024-01-05'') (JStr ''Yes'')) 2 ''Sheet1''"
  by code_simp

text \<open>
  Claim C1, amended: take a decoded row that the normalizer of the client processes
  without an exception, and let its cells be such that
  \<^item> \<open>Name\<close> is falsy, or a string with a character that is not white space;
  \<^item> \<open>Amount\<close> is not a truthy value whose number is 0 (and not a falsy value whose
    number is above 0);
  \<^item> \<open>Date\<close> is falsy, or a number that, read as milliseconds after 1 January 1970, lies
    between twelve months before the server's clock reading and that reading, or another
    value that \<open>new Date\<close> reads either as no date or as a date in that range;
  \<^item> \<open>Verified\<close> is a string, false, a truthy number or a Date object.

  Then the client's validator finds no error in the normalized row exactly when
  \<open>validateRow\<close> of the server, under the default configuration, returns the raw row as
  valid. The row passes without any finding, which is what \<open>handleValidate\<close> asks for,
  exactly when moreover the validator has no warning for it.
\<close>

theorem verdicts_agree:
  assumes "processRow rt r = Inr r'" and "agreeing_row rt reads r"
  shows "(client_accepts rt now index r \<longleftrightarrow> server_accepts rt reads r rowNumber sname)
       \<and> (client_clean rt now index r \<longleftrightarrow>
            server_accepts rt reads r rowNumber sname \<and>
            snd (validate_row rt now index r' ([], [])) = [])"
proof -
  note p = assms(1)
  from assms(2) have n: "name_agrees (get_prop r ''Name'')"
    and a: "amount_agrees rt (get_prop r ''Amount'')"
    and d: "date_agrees rt reads (get_prop r ''Date'')"
    and v: "verified_agrees (get_prop r ''Verified'')"
    by (simp_all add: agreeing_row_def)
  have c: "client_accepts rt now index r \<longleftrightarrow>
             fst (validate_row rt now index r' ([], [])) = []"
    by (simp add: client_accepts_def p)
  have 1: "client_accepts rt now index r \<longleftrightarrow> server_accepts rt reads r rowNumber sname"
    unfolding c validate_row_no_error processRow_Name[OF p] processRow_Amount[OF p]
      server_accepts_iff
    using name_column_agrees[OF n] amount_column_agrees[OF a] date_column_agrees[OF p d]
      verified_column_agrees[OF p v]
    by blast
  have "client_clean rt now index r \<longleftrightarrow>
          client_accepts rt now index r \<and> snd (validate_row rt now index r' ([], [])) = []"
    by (simp add: client_clean_def client_accepts_def p prod_eq_iff)
  then show ?thesis using 1 by blast
qed

lemma agreeing_rows:
  "processRow basic_runtime row_large =
     Inr [(''Name'', JStr ''A''), (''Amount'', JNum (Fin 2000000)),
          (''Date'', JStr ''2024-01-05''), (''Verified'', JBool True)]
 \<and> agreeing_row basic_runtime (start_Feb_2024, start_Feb_2024) row_large
 \<and> client_accepts basic_runtime start_Feb_2024 0 row_large
 \<and> snd (validate_row basic_runtime start_Feb_2024 0
           [(''Name'', JStr ''A''), (''Amount'', JNum (Fin 2000000)),
            (''Date'', JStr ''2024-01-05''), (''Verified'', JBool True)] ([], [])) \<noteq> []
 \<and> processRow basic_runtime row_bad =
     Inr [(''Name'', JStr []), (''Amount'', JNum (Fin (- 5))), (''Date'', JNull),
          (''Verified'', JBool False)]
 \<and> agreeing_row basic_runtime (start_Feb_2024, start_Feb_2024) row_bad
 \<and> \<not> client_accepts basic_runtime start_Feb_2024 1 row_bad"
  by code_simp

theorem verdicts_agree_witness:
  "agreeing_row basic_runtime (start_Feb_2024, start_Feb_2024) row_large
 \<and> client_accepts basic_runtime start_Feb_2024 0 row_large
 \<and> server_accepts basic_runtime (start_Feb_2024, start_Feb_2024) row_large 2 ''Sheet1''
 \<and> \<not> client_clean basic_runtime start_Feb_2024 0 row_large
 \<and> agreeing_row basic_runtime (start_Feb_2024, start_Feb_2024) row_bad
 \<and> \<not> client_accepts basic_runtime start_Feb_2024 1 row_bad
 \<and> \<not> server_accepts basic_runtime (start_Feb_2024, start_Feb_2024) row_bad 3 ''Sheet1''"
proof -
  note f = agreeing_rows
  from f have p1: "processRow basic_runtime row_large =
     Inr [(''Name'', JStr ''A''), (''Amount'', JNum (Fin 2000000)),
          (''Date'', JStr ''2024-01-05''), (''Verified'', JBool True)]"
    and a1: "agreeing_row basic_runtime (start_Feb_2024, start_Feb_2024) row_large"
    and p2: "processRow basic_runtime row_bad =
     Inr [(''Name'', JStr []), (''Amount'', JNum (Fin (- 5))), (''Date'', JNull),
          (''Verified'', JBool False)]"
    and a2: "agreeing_row basic_runtime (start_Feb_2024, start_Feb_2024) row_bad"
    by blast+
  note t1 = verdicts_agree[OF p1 a1, of start_Feb_2024 0 2 "''Sheet1''"]
  note t2 = verdicts_agree[OF p2 a2, of start_Feb_2024 1 3 "''Sheet1''"]
  show ?thesis using f t1 t2 by blast
qed

end
